theory Spec2Isabelle
  imports Complex_Main "HOL-Library.Monad_Syntax" "HOL-Library.Signed_Division"
begin

section \<open>The STFT processor of noise-repellent (src/stft\_processor.c)\<close>

text \<open>
  The C source keeps one \<^verbatim>\<open>STFTprocessor\<close> struct and mutates it in place. The model
  passes the struct as a record and returns the updated record.

  \<^item> A C \<^verbatim>\<open>float\<close> is idealised as a \<^typ>\<open>real\<close>: rounding, infinities and NaN are not
    modelled. A division by zero is \<open>0\<close> in HOL, where the C code would produce an
    infinity or a NaN.
  \<^item> A C \<^verbatim>\<open>int\<close> is an \<^typ>\<open>int\<close>; all sizes of the program are far below the range of
    a machine integer, so wrap-around is not modelled.
  \<^item> A heap array is a list whose length is the number of allocated elements. An access
    outside of it is undefined behaviour in C; in the model it is the result \<open>None\<close>.
  \<^item> A \<^verbatim>\<open>for\<close> loop is a fold of its body over the index values, stopping at the first
    \<open>None\<close>.
  \<^item> \<^verbatim>\<open>stft_p_free\<close> only releases memory and is not part of the model.
\<close>

subsection \<open>Arrays and loops\<close>

definition array_get :: "'a list \<Rightarrow> int \<Rightarrow> 'a option" where
  "array_get a i = (if 0 \<le> i \<and> i < int (length a) then Some (a ! nat i) else None)"

definition array_set :: "'a list \<Rightarrow> int \<Rightarrow> 'a \<Rightarrow> 'a list option" where
  "array_set a i v = (if 0 \<le> i \<and> i < int (length a) then Some (a[nat i := v]) else None)"

primrec for_each :: "int list \<Rightarrow> (int \<Rightarrow> 's \<Rightarrow> 's option) \<Rightarrow> 's \<Rightarrow> 's option" where
  "for_each [] body s = Some s"
| "for_each (k # ks) body s = (case body k s of None \<Rightarrow> None | Some s' \<Rightarrow> for_each ks body s')"

text \<open>\<^verbatim>\<open>for (k = 0; k < n; k++) body\<close>\<close>

definition for_upto :: "int \<Rightarrow> (int \<Rightarrow> 's \<Rightarrow> 's option) \<Rightarrow> 's \<Rightarrow> 's option" where
  "for_upto n body s = for_each (map int [0..<nat n]) body s"

text \<open>
  \<^verbatim>\<open>memcpy(dst, src, n * sizeof(float))\<close> between two distinct arrays and
  \<^verbatim>\<open>memmove(a, a + off, n * sizeof(float))\<close> inside one array. A negative count would be
  converted to a huge \<^verbatim>\<open>size_t\<close>; it is out of bounds like any other overrun.
\<close>

definition array_memcpy :: "'a list \<Rightarrow> 'a list \<Rightarrow> int \<Rightarrow> 'a list option" where
  "array_memcpy dst src n =
     (if 0 \<le> n \<and> n \<le> int (length dst) \<and> n \<le> int (length src)
      then Some (take (nat n) src @ drop (nat n) dst) else None)"

definition array_memmove_down :: "'a list \<Rightarrow> int \<Rightarrow> int \<Rightarrow> 'a list option" where
  "array_memmove_down a off n =
     (if 0 \<le> n \<and> 0 \<le> off \<and> off + n \<le> int (length a)
      then Some (take (nat n) (drop (nat off) a) @ drop (nat n) a) else None)"

subsection \<open>The struct and the collaborators outside of the file\<close>

text \<open>
  The two FFTW plans of the struct are fixed at initialisation: \<^verbatim>\<open>forward\<close> transforms
  \<^verbatim>\<open>input_fft_buffer\<close> into \<^verbatim>\<open>output_fft_buffer\<close>, \<^verbatim>\<open>backward\<close> the other way round, both
  of length \<^verbatim>\<open>fft_size\<close>. They are not fields of the record; executing them is modelled
  by \<open>fftwf_execute_forward\<close> and \<open>fftwf_execute_backward\<close> below.
\<close>

record 'p STFTprocessor =
  fft_size :: int
  block_size :: int
  window_option_input :: int
  window_option_output :: int
  overlap_factor :: int
  overlap_scale_factor :: real
  hop :: int
  input_latency :: int
  read_position :: int
  input_window :: "real list"
  output_window :: "real list"
  in_fifo :: "real list"
  out_fifo :: "real list"
  output_accum :: "real list"
  input_fft_buffer :: "real list"
  output_fft_buffer :: "real list"
  fft_processor :: 'p

text \<open>
  What the file calls but does not define is a parameter of the model:
  \<^item> \<open>window_coeff t N k\<close>: coefficient \<open>k\<close> of the window of family \<open>t\<close> and length \<open>N\<close>,
    as \<^verbatim>\<open>fft_window\<close> computes it;
  \<^item> \<open>fftw_r2hc x j\<close>, \<open>fftw_hc2r x j\<close>: entry \<open>j\<close> of the unnormalised real-to-halfcomplex
    and halfcomplex-to-real transforms of the array \<open>x\<close> (the FFTW library);
  \<^item> \<open>fft_p_run p x enable\<close>: the spectral stage on the spectrum \<open>x\<close>, giving its new
    state and the entries of the spectrum it leaves in place; \<open>fft_p_init\<close> its constructor.
    The type \<open>'p\<close> is the state of the spectral stage (\<^verbatim>\<open>FFTprocessor\<close>).
\<close>

record 'p externals =
  window_coeff :: "int \<Rightarrow> int \<Rightarrow> int \<Rightarrow> real"
  fftw_r2hc :: "real list \<Rightarrow> nat \<Rightarrow> real"
  fftw_hc2r :: "real list \<Rightarrow> nat \<Rightarrow> real"
  fft_p_run :: "'p \<Rightarrow> real list \<Rightarrow> real \<Rightarrow> 'p \<times> (nat \<Rightarrow> real)"
  fft_p_init :: "int \<Rightarrow> int \<Rightarrow> int \<Rightarrow> 'p"

text \<open>
  Modelled from the spec: \<^verbatim>\<open>fft_window(window, N, window_type)\<close> is defined outside of
  src/. The spec (section 6) says that it fills the buffer with \<open>N\<close> coefficients of the
  chosen family and has no other effect.
\<close>

definition fft_window :: "'p externals \<Rightarrow> real list \<Rightarrow> int \<Rightarrow> int \<Rightarrow> real list option" where
  "fft_window ext window N window_type =
     for_upto N (\<lambda>k w. array_set w k (window_coeff ext window_type N k)) window"

text \<open>
  Modelled from the spec: \<^verbatim>\<open>initialize_array(array, value, size)\<close> is defined outside of
  src/. The spec (section 4.3, \<open>reset()\<close>) says that the buffers are zero-filled, so the
  function stores \<open>value\<close> in the first \<open>size\<close> entries.
\<close>

definition initialize_array :: "real list \<Rightarrow> real \<Rightarrow> int \<Rightarrow> real list option" where
  "initialize_array array v n = for_upto n (\<lambda>k a. array_set a k v) array"

definition fftwf_execute_forward :: "'p externals \<Rightarrow> 'p STFTprocessor \<Rightarrow> 'p STFTprocessor option" where
  "fftwf_execute_forward ext self =
     (let n = fft_size self in
      if 0 \<le> n \<and> n \<le> int (length (input_fft_buffer self)) \<and> n \<le> int (length (output_fft_buffer self))
      then Some (self\<lparr>output_fft_buffer :=
                   map (fftw_r2hc ext (take (nat n) (input_fft_buffer self))) [0..<nat n]
                   @ drop (nat n) (output_fft_buffer self)\<rparr>)
      else None)"

definition fftwf_execute_backward :: "'p externals \<Rightarrow> 'p STFTprocessor \<Rightarrow> 'p STFTprocessor option" where
  "fftwf_execute_backward ext self =
     (let n = fft_size self in
      if 0 \<le> n \<and> n \<le> int (length (input_fft_buffer self)) \<and> n \<le> int (length (output_fft_buffer self))
      then Some (self\<lparr>input_fft_buffer :=
                   map (fftw_hc2r ext (take (nat n) (output_fft_buffer self))) [0..<nat n]
                   @ drop (nat n) (input_fft_buffer self)\<rparr>)
      else None)"

subsection \<open>Window setup\<close>

definition stft_p_pre_and_post_window :: "'p externals \<Rightarrow> 'p STFTprocessor \<Rightarrow> 'p STFTprocessor option" where
  "stft_p_pre_and_post_window ext self = do {
     iw \<leftarrow> (if window_option_input self = 0 then fft_window ext (input_window self) (block_size self) 0
            else if window_option_input self = 1 then fft_window ext (input_window self) (block_size self) 1
            else if window_option_input self = 2 then fft_window ext (input_window self) (block_size self) 2
            else if window_option_input self = 3 then fft_window ext (input_window self) (block_size self) 3
            else Some (input_window self));
     ow \<leftarrow> (if window_option_output self = 0 then fft_window ext (output_window self) (block_size self) 0
            else if window_option_output self = 1 then fft_window ext (output_window self) (block_size self) 1
            else if window_option_output self = 2 then fft_window ext (output_window self) (block_size self) 2
            else if window_option_output self = 3 then fft_window ext (output_window self) (block_size self) 3
            else Some (output_window self));
     sum \<leftarrow> for_upto (block_size self)
              (\<lambda>i sum. do { a \<leftarrow> array_get iw i; b \<leftarrow> array_get ow i; Some (sum + a * b) }) 0;
     Some (self\<lparr>input_window := iw, output_window := ow,
                overlap_scale_factor := sum / real_of_int (block_size self)\<rparr>)
   }"

subsection \<open>Analysis\<close>

text \<open>The loop condition \<^verbatim>\<open>k <= number_of_zeros - 1\<close> is \<^verbatim>\<open>k < number_of_zeros\<close> on integers.\<close>

definition stft_p_zeropad :: "'p STFTprocessor \<Rightarrow> 'p STFTprocessor option" where
  "stft_p_zeropad self =
     (let number_of_zeros = fft_size self - block_size self in do {
        buf \<leftarrow> for_upto number_of_zeros
                 (\<lambda>k buf. array_set buf (block_size self - 1 + k) 0) (input_fft_buffer self);
        Some (self\<lparr>input_fft_buffer := buf\<rparr>)
      })"

definition stft_p_analysis :: "'p externals \<Rightarrow> 'p STFTprocessor \<Rightarrow> 'p STFTprocessor option" where
  "stft_p_analysis ext self = do {
     self \<leftarrow> (if block_size self < fft_size self then stft_p_zeropad self else Some self);
     buf \<leftarrow> for_upto (fft_size self)
              (\<lambda>k buf. do { x \<leftarrow> array_get buf k; w \<leftarrow> array_get (input_window self) k;
                            array_set buf k (x * w) })
              (input_fft_buffer self);
     fftwf_execute_forward ext (self\<lparr>input_fft_buffer := buf\<rparr>)
   }"

subsection \<open>Spectral stage\<close>

text \<open>
  \<^verbatim>\<open>enable\<close> is a pointer to one float in the source; the model passes the value it
  points to. The stage works in place and cannot change the length of the buffer.
\<close>

definition stft_p_processing :: "'p externals \<Rightarrow> 'p STFTprocessor \<Rightarrow> real \<Rightarrow> 'p STFTprocessor option" where
  "stft_p_processing ext self enable =
     (case fft_p_run ext (fft_processor self) (output_fft_buffer self) enable of
        (p, spectrum) \<Rightarrow>
          Some (self\<lparr>output_fft_buffer := map spectrum [0..<length (output_fft_buffer self)],
                     fft_processor := p\<rparr>))"

subsection \<open>Synthesis and overlap-add\<close>

definition stft_p_synthesis :: "'p externals \<Rightarrow> 'p STFTprocessor \<Rightarrow> 'p STFTprocessor option" where
  "stft_p_synthesis ext self = do {
     self \<leftarrow> fftwf_execute_backward ext self;
     buf \<leftarrow> for_upto (fft_size self)
              (\<lambda>k buf. do { x \<leftarrow> array_get buf k;
                            array_set buf k (x / real_of_int (fft_size self)) })
              (input_fft_buffer self);
     buf \<leftarrow> for_upto (fft_size self)
              (\<lambda>k buf. do { w \<leftarrow> array_get (output_window self) k; x \<leftarrow> array_get buf k;
                            array_set buf k ((w * x) / (overlap_scale_factor self * real_of_int (overlap_factor self))) })
              buf;
     accum \<leftarrow> for_upto (block_size self)
                (\<lambda>k acc. do { a \<leftarrow> array_get acc k; x \<leftarrow> array_get buf k; array_set acc k (a + x) })
                (output_accum self);
     ofifo \<leftarrow> for_upto (hop self)
                (\<lambda>k fifo. do { a \<leftarrow> array_get accum k; array_set fifo k a })
                (out_fifo self);
     accum \<leftarrow> array_memmove_down accum (hop self) (block_size self);
     ififo \<leftarrow> for_upto (input_latency self)
                (\<lambda>k fifo. do { x \<leftarrow> array_get fifo (k + hop self); array_set fifo k x })
                (in_fifo self);
     Some (self\<lparr>input_fft_buffer := buf, output_accum := accum, out_fifo := ofifo, in_fifo := ififo\<rparr>)
   }"

subsection \<open>Latency, reset, initialisation\<close>

definition stft_p_get_latency :: "'p STFTprocessor \<Rightarrow> int" where
  "stft_p_get_latency self = input_latency self"

definition stft_p_reset :: "'p STFTprocessor \<Rightarrow> 'p STFTprocessor option" where
  "stft_p_reset self = do {
     ifb \<leftarrow> initialize_array (input_fft_buffer self) 0 (fft_size self);
     ofb \<leftarrow> initialize_array (output_fft_buffer self) 0 (fft_size self);
     iw \<leftarrow> initialize_array (input_window self) 0 (fft_size self);
     ow \<leftarrow> initialize_array (output_window self) 0 (fft_size self);
     ififo \<leftarrow> initialize_array (in_fifo self) 0 (block_size self);
     ofifo \<leftarrow> initialize_array (out_fifo self) 0 (block_size self);
     accum \<leftarrow> initialize_array (output_accum self) 0 (block_size self * 2);
     Some (self\<lparr>input_fft_buffer := ifb, output_fft_buffer := ofb, input_window := iw,
                output_window := ow, in_fifo := ififo, out_fifo := ofifo, output_accum := accum\<rparr>)
   }"

text \<open>
  \<^verbatim>\<open>malloc(n * sizeof(float))\<close>: the allocation is assumed to succeed for \<open>0 \<le> n\<close>. Its
  content is indeterminate in C; \<open>stft_p_reset\<close> overwrites every entry before anything
  is read, so the model starts from zeros. For a negative \<open>n\<close> the model gives \<open>None\<close>:
  in C the byte count wraps to a huge \<^verbatim>\<open>size_t\<close>, \<^verbatim>\<open>malloc\<close> returns \<^verbatim>\<open>NULL\<close>, and
  \<^verbatim>\<open>stft_p_init\<close> would go on and return a struct without arrays. No property below is
  about a configuration with a negative size.
\<close>

definition malloc_floats :: "int \<Rightarrow> real list option" where
  "malloc_floats n = (if 0 \<le> n then Some (replicate (nat n) 0) else None)"

text \<open>
  The configuration is compiled in (\<^verbatim>\<open>#define FFT_SIZE 2048\<close> and so on, "hardcoded for
  now"). \<open>stft_p_init_with\<close> is the body of \<^verbatim>\<open>stft_p_init\<close> with the five macros as
  parameters, and \<open>stft_p_init\<close> is its instance at the values of the source. C's integer
  division truncates (\<open>sdiv\<close>) and is undefined for a zero divisor.
\<close>

record stft_config =
  cfg_fft_size :: int
  cfg_block_size :: int
  cfg_input_window_type :: int
  cfg_output_window_type :: int
  cfg_overlap_factor :: int

definition stft_p_init_with :: "'p externals \<Rightarrow> stft_config \<Rightarrow> int \<Rightarrow> 'p STFTprocessor option" where
  "stft_p_init_with ext cfg sample_rate =
     (if cfg_overlap_factor cfg = 0 then None else do {
        let hp = cfg_fft_size cfg sdiv cfg_overlap_factor cfg;
        let lat = cfg_fft_size cfg - hp;
        iw \<leftarrow> malloc_floats (cfg_fft_size cfg);
        ow \<leftarrow> malloc_floats (cfg_fft_size cfg);
        ififo \<leftarrow> malloc_floats (cfg_block_size cfg);
        ofifo \<leftarrow> malloc_floats (cfg_block_size cfg);
        accum \<leftarrow> malloc_floats (cfg_block_size cfg * 2);
        ifb \<leftarrow> malloc_floats (cfg_fft_size cfg);
        ofb \<leftarrow> malloc_floats (cfg_fft_size cfg);
        self \<leftarrow> stft_p_reset
          \<lparr>fft_size = cfg_fft_size cfg, block_size = cfg_block_size cfg,
           window_option_input = cfg_input_window_type cfg,
           window_option_output = cfg_output_window_type cfg,
           overlap_factor = cfg_overlap_factor cfg, overlap_scale_factor = 0,
           hop = hp, input_latency = lat, read_position = lat,
           input_window = iw, output_window = ow, in_fifo = ififo, out_fifo = ofifo,
           output_accum = accum, input_fft_buffer = ifb, output_fft_buffer = ofb,
           fft_processor = fft_p_init ext (cfg_fft_size cfg) sample_rate hp\<rparr>;
        stft_p_pre_and_post_window ext self
      })"

definition default_config :: stft_config where
  "default_config = \<lparr>cfg_fft_size = 2048, cfg_block_size = 2048, cfg_input_window_type = 3,
                     cfg_output_window_type = 3, cfg_overlap_factor = 4\<rparr>"

definition stft_p_init :: "'p externals \<Rightarrow> int \<Rightarrow> 'p STFTprocessor option" where
  "stft_p_init ext sample_rate = stft_p_init_with ext default_config sample_rate"

subsection \<open>The run loop\<close>

text \<open>
  \<open>stft_p_cycle\<close> is the body of the \<^verbatim>\<open>if (self->read_position >= self->block_size)\<close>
  statement, \<open>stft_p_run_sample\<close> the body of the loop over \<open>k\<close>. The loop state is the
  struct together with the caller's output buffer. \<^verbatim>\<open>input\<close> and \<^verbatim>\<open>output\<close> are taken to
  be distinct arrays.
\<close>

definition stft_p_cycle :: "'p externals \<Rightarrow> real \<Rightarrow> 'p STFTprocessor \<Rightarrow> 'p STFTprocessor option" where
  "stft_p_cycle ext enable self = do {
     buf \<leftarrow> array_memcpy (input_fft_buffer self) (in_fifo self) (block_size self);
     self \<leftarrow> stft_p_analysis ext (self\<lparr>input_fft_buffer := buf, read_position := input_latency self\<rparr>);
     self \<leftarrow> stft_p_processing ext self enable;
     stft_p_synthesis ext self
   }"

definition stft_p_run_sample ::
  "'p externals \<Rightarrow> real \<Rightarrow> real list \<Rightarrow> int \<Rightarrow> 'p STFTprocessor \<times> real list \<Rightarrow> ('p STFTprocessor \<times> real list) option" where
  "stft_p_run_sample ext enable input k st =
     (case st of (self, output) \<Rightarrow> do {
        x \<leftarrow> array_get input k;
        ififo \<leftarrow> array_set (in_fifo self) (read_position self) x;
        y \<leftarrow> array_get (out_fifo self) (read_position self - input_latency self);
        output \<leftarrow> array_set output k y;
        let self = self\<lparr>in_fifo := ififo, read_position := read_position self + 1\<rparr>;
        if read_position self \<ge> block_size self
        then do { self \<leftarrow> stft_p_cycle ext enable self; Some (self, output) }
        else Some (self, output)
      })"

definition stft_p_run ::
  "'p externals \<Rightarrow> 'p STFTprocessor \<Rightarrow> int \<Rightarrow> real list \<Rightarrow> real list \<Rightarrow> real \<Rightarrow> ('p STFTprocessor \<times> real list) option" where
  "stft_p_run ext self n_samples input output enable =
     for_upto n_samples (stft_p_run_sample ext enable input) (self, output)"


section \<open>Notions for stating and proving the properties\<close>

subsection \<open>Well-shaped states\<close>

text \<open>
  \<open>stft_shape\<close> holds of the states on which the run loop stays inside its arrays: the
  buffers have the sizes that \<open>stft_p_init\<close> allocates, \<open>block_size = fft_size\<close> and
  \<open>0 < hop \<le> fft_size\<close>. With \<open>block_size < fft_size\<close> the source reads or writes
  outside of a FIFO, whose size is \<open>block_size\<close>, in the first cycle at the latest
  (\<open>pad_run_fails\<close> below is an instance). \<open>stft_inv\<close> adds the position of
  \<open>read_position\<close> and the zero tail of the accumulator.
\<close>

definition stft_shape :: "'p STFTprocessor \<Rightarrow> bool" where
  "stft_shape s \<longleftrightarrow>
     0 < hop s \<and> hop s \<le> fft_size s \<and> block_size s = fft_size s \<and>
     input_latency s = fft_size s - hop s \<and>
     length (input_window s) = nat (fft_size s) \<and>
     length (output_window s) = nat (fft_size s) \<and>
     length (in_fifo s) = nat (block_size s) \<and>
     length (out_fifo s) = nat (block_size s) \<and>
     length (output_accum s) = nat (block_size s * 2) \<and>
     length (input_fft_buffer s) = nat (fft_size s) \<and>
     length (output_fft_buffer s) = nat (fft_size s)"

definition stft_inv :: "'p STFTprocessor \<Rightarrow> bool" where
  "stft_inv s \<longleftrightarrow>
     stft_shape s \<and> input_latency s \<le> read_position s \<and> read_position s < block_size s \<and>
     (\<forall>i. nat (block_size s) \<le> i \<and> i < nat (block_size s * 2) \<longrightarrow> output_accum s ! i = 0)"

subsection \<open>The operations on well-shaped states, as total functions\<close>

text \<open>
  On a well-shaped state no array access fails, and each operation of the source is a
  plain state update: \<open>analysed\<close>, \<open>processed\<close> and \<open>synthesised\<close> for the three
  stages of a cycle, \<open>cycled\<close> for the whole cycle, \<open>pushed\<close> for the first three
  statements of the loop body, \<open>stepped\<close> for the loop body. The lemmas
  \<open>stft_p_analysis_exact\<close> to \<open>stft_p_run_sample_exact\<close> below prove that the model of
  the source computes exactly these.
\<close>

definition windowed_frame :: "'p STFTprocessor \<Rightarrow> real list" where
  "windowed_frame s = map (\<lambda>k. input_fft_buffer s ! k * input_window s ! k) [0..<nat (fft_size s)]"

definition synthesis_frame :: "'p externals \<Rightarrow> 'p STFTprocessor \<Rightarrow> real list" where
  "synthesis_frame ext s =
     map (\<lambda>k. (output_window s ! k * (fftw_hc2r ext (output_fft_buffer s) k / real_of_int (fft_size s)))
              / (overlap_scale_factor s * real_of_int (overlap_factor s)))
         [0..<nat (fft_size s)]"

definition overlap_added :: "'p STFTprocessor \<Rightarrow> real list \<Rightarrow> real list" where
  "overlap_added s y =
     map (\<lambda>k. output_accum s ! k + y ! k) [0..<nat (block_size s)] @ drop (nat (block_size s)) (output_accum s)"

definition analysed :: "'p externals \<Rightarrow> 'p STFTprocessor \<Rightarrow> 'p STFTprocessor" where
  "analysed ext s = s\<lparr>input_fft_buffer := windowed_frame s,
                        output_fft_buffer := map (fftw_r2hc ext (windowed_frame s)) [0..<nat (fft_size s)]\<rparr>"

definition processed :: "'p externals \<Rightarrow> real \<Rightarrow> 'p STFTprocessor \<Rightarrow> 'p STFTprocessor" where
  "processed ext enable s =
     s\<lparr>output_fft_buffer := map (snd (fft_p_run ext (fft_processor s) (output_fft_buffer s) enable))
                                 [0..<length (output_fft_buffer s)],
       fft_processor := fst (fft_p_run ext (fft_processor s) (output_fft_buffer s) enable)\<rparr>"

definition synthesised :: "'p externals \<Rightarrow> 'p STFTprocessor \<Rightarrow> 'p STFTprocessor" where
  "synthesised ext s =
     s\<lparr>input_fft_buffer := synthesis_frame ext s,
       output_accum := take (nat (block_size s)) (drop (nat (hop s)) (overlap_added s (synthesis_frame ext s)))
                       @ drop (nat (block_size s)) (overlap_added s (synthesis_frame ext s)),
       out_fifo := take (nat (hop s)) (overlap_added s (synthesis_frame ext s)) @ drop (nat (hop s)) (out_fifo s),
       in_fifo := take (nat (input_latency s)) (drop (nat (hop s)) (in_fifo s))
                  @ drop (nat (input_latency s)) (in_fifo s)\<rparr>"

definition cycle_frame :: "'p externals \<Rightarrow> real \<Rightarrow> 'p STFTprocessor \<Rightarrow> real list" where
  "cycle_frame ext enable s =
     synthesis_frame ext (processed ext enable (analysed ext
       (s\<lparr>input_fft_buffer := in_fifo s, read_position := input_latency s\<rparr>)))"

definition cycled :: "'p externals \<Rightarrow> real \<Rightarrow> 'p STFTprocessor \<Rightarrow> 'p STFTprocessor" where
  "cycled ext enable s =
     synthesised ext (processed ext enable (analysed ext
       (s\<lparr>input_fft_buffer := in_fifo s, read_position := input_latency s\<rparr>)))"

definition pushed :: "'p STFTprocessor \<Rightarrow> real \<Rightarrow> 'p STFTprocessor" where
  "pushed s x = s\<lparr>in_fifo := (in_fifo s)[nat (read_position s) := x],
                    read_position := read_position s + 1\<rparr>"

definition stepped :: "'p externals \<Rightarrow> real \<Rightarrow> 'p STFTprocessor \<Rightarrow> real \<Rightarrow> 'p STFTprocessor" where
  "stepped ext enable s x =
     (if read_position s + 1 \<ge> block_size s then cycled ext enable (pushed s x) else pushed s x)"

subsection \<open>Configurations and reachable states\<close>

text \<open>
  \<open>valid_config\<close> describes the configurations whose initial state is well-shaped; the
  compiled-in one (2048, 2048, overlap 4) is among them. \<open>generated_window\<close> is what
  window setup leaves in a window array, \<open>window_of\<close> the same on a zero-filled array of
  the window's length, and \<open>initial_state\<close> the struct that \<open>stft_p_init_with\<close>
  returns for a valid configuration. A state is \<open>reachable\<close> when a sequence of
  successful \<open>run()\<close> and \<open>reset()\<close> calls leads to it from initialisation, and
  \<open>reachable_by_run\<close> when no \<open>reset()\<close> is among them. \<open>lifetime\<close> is
  \<open>reachable\<close> without the restriction to valid configurations: the states of an
  object whatever the five configuration values are.
\<close>

definition valid_config :: "stft_config \<Rightarrow> bool" where
  "valid_config cfg \<longleftrightarrow>
     cfg_block_size cfg = cfg_fft_size cfg \<and> 1 \<le> cfg_overlap_factor cfg \<and>
     cfg_overlap_factor cfg \<le> cfg_fft_size cfg"

definition generated_window :: "'p externals \<Rightarrow> int \<Rightarrow> int \<Rightarrow> real list \<Rightarrow> real list" where
  "generated_window ext t n w =
     (if t = 0 \<or> t = 1 \<or> t = 2 \<or> t = 3
      then map (\<lambda>k. window_coeff ext t n (int k)) [0..<nat n] @ drop (nat n) w else w)"

definition window_of :: "'p externals \<Rightarrow> int \<Rightarrow> int \<Rightarrow> real list" where
  "window_of ext t n = generated_window ext t n (replicate (nat n) 0)"

definition initial_state :: "'p externals \<Rightarrow> stft_config \<Rightarrow> int \<Rightarrow> 'p STFTprocessor" where
  "initial_state ext cfg sample_rate =
     (let F = cfg_fft_size cfg; h = F div cfg_overlap_factor cfg;
          iw = generated_window ext (cfg_input_window_type cfg) F (replicate (nat F) 0);
          ow = generated_window ext (cfg_output_window_type cfg) F (replicate (nat F) 0)
      in \<lparr>fft_size = F, block_size = F,
           window_option_input = cfg_input_window_type cfg,
           window_option_output = cfg_output_window_type cfg,
           overlap_factor = cfg_overlap_factor cfg,
           overlap_scale_factor = (\<Sum>i<nat F. iw ! i * ow ! i) / real_of_int F,
           hop = h, input_latency = F - h, read_position = F - h,
           input_window = iw, output_window = ow,
           in_fifo = replicate (nat F) 0, out_fifo = replicate (nat F) 0,
           output_accum = replicate (nat (F * 2)) 0,
           input_fft_buffer = replicate (nat F) 0, output_fft_buffer = replicate (nat F) 0,
           fft_processor = fft_p_init ext F sample_rate h\<rparr>)"

inductive reachable :: "'p externals \<Rightarrow> stft_config \<Rightarrow> 'p STFTprocessor \<Rightarrow> bool"
  for ext :: "'p externals" and cfg :: stft_config where
  reach_init: "valid_config cfg \<Longrightarrow> stft_p_init_with ext cfg sample_rate = Some s \<Longrightarrow> reachable ext cfg s"
| reach_run: "reachable ext cfg s \<Longrightarrow> stft_p_run ext s n inp out enable = Some (s', out')
              \<Longrightarrow> reachable ext cfg s'"
| reach_reset: "reachable ext cfg s \<Longrightarrow> stft_p_reset s = Some s' \<Longrightarrow> reachable ext cfg s'"

inductive reachable_by_run :: "'p externals \<Rightarrow> stft_config \<Rightarrow> 'p STFTprocessor \<Rightarrow> bool"
  for ext :: "'p externals" and cfg :: stft_config where
  run_init: "valid_config cfg \<Longrightarrow> stft_p_init_with ext cfg sample_rate = Some s \<Longrightarrow> reachable_by_run ext cfg s"
| run_run: "reachable_by_run ext cfg s \<Longrightarrow> stft_p_run ext s n inp out enable = Some (s', out')
              \<Longrightarrow> reachable_by_run ext cfg s'"

inductive lifetime :: "'p externals \<Rightarrow> stft_config \<Rightarrow> 'p STFTprocessor \<Rightarrow> bool"
  for ext :: "'p externals" and cfg :: stft_config where
  life_init: "stft_p_init_with ext cfg sample_rate = Some s \<Longrightarrow> lifetime ext cfg s"
| life_run: "lifetime ext cfg s \<Longrightarrow> stft_p_run ext s n inp out enable = Some (s', out')
              \<Longrightarrow> lifetime ext cfg s'"
| life_reset: "lifetime ext cfg s \<Longrightarrow> stft_p_reset s = Some s' \<Longrightarrow> lifetime ext cfg s'"

subsection \<open>The inner product of two windows\<close>

definition inner_product :: "real list \<Rightarrow> real list \<Rightarrow> real" where
  "inner_product xs ys = sum_list (map2 (*) xs ys)"

subsection \<open>Bookkeeping state\<close>





subsection \<open>A sequence of calls\<close>

text \<open>
  The caller splits its input into consecutive blocks of the lengths \<open>ns\<close> and calls
  \<open>stft_p_run\<close> once per block, passing \<^verbatim>\<open>input + n\<close> and \<^verbatim>\<open>output + n\<close> to
  the next call. The result is the final state and the whole output buffer.
\<close>

fun stft_p_run_blocks ::
  "'p externals \<Rightarrow> 'p STFTprocessor \<Rightarrow> nat list \<Rightarrow> real list \<Rightarrow> real list \<Rightarrow> real \<Rightarrow> ('p STFTprocessor \<times> real list) option" where
  "stft_p_run_blocks ext s [] inp out enable = Some (s, out)"
| "stft_p_run_blocks ext s (n # ns) inp out enable = do {
     (s1, out1) \<leftarrow> stft_p_run ext s (int n) inp out enable;
     (s2, out2) \<leftarrow> stft_p_run_blocks ext s1 ns (drop n inp) (drop n out1) enable;
     Some (s2, take n out1 @ out2)
   }"

subsection \<open>Overlap-add\<close>

text \<open>
  \<open>ola_sum N h p i\<close> adds \<open>p\<close> at the positions \<open>i\<close>, \<open>i + h\<close>, \<open>i + 2 h\<close>, ... below
  \<open>N\<close>: the total weight that the overlapping frames give to one sample.
  \<open>window_product\<close> is the product of the two windows and \<open>ola_gain\<close> the divisor of the
  synthesis loop. \<open>cola\<close> (constant overlap-add) says that the weights add up to that
  divisor. \<open>identity_stage\<close> and \<open>fftw_round_trip\<close> state what is assumed of the
  spectral stage and of the transform pair. \<open>stream inp i\<close> is the input signal at
  position \<open>i\<close>, zero before its start, and \<open>ola_inv inp m s out\<close> relates the state
  and the output buffer after \<open>m\<close> samples to the signal.
\<close>

function ola_sum :: "nat \<Rightarrow> nat \<Rightarrow> (nat \<Rightarrow> real) \<Rightarrow> nat \<Rightarrow> real" where
  "ola_sum N h p i = (if 0 < h \<and> i < N then p i + ola_sum N h p (i + h) else 0)"
  by pat_completeness auto
termination
  by (relation "measure (\<lambda>(N, h, p, i). N - i)") auto

declare ola_sum.simps [simp del]

definition window_product :: "'p STFTprocessor \<Rightarrow> nat \<Rightarrow> real" where
  "window_product s k = input_window s ! k * output_window s ! k"

definition ola_gain :: "'p STFTprocessor \<Rightarrow> real" where
  "ola_gain s = overlap_scale_factor s * real_of_int (overlap_factor s)"

definition cola :: "'p STFTprocessor \<Rightarrow> bool" where
  "cola s \<longleftrightarrow> ola_gain s \<noteq> 0 \<and>
     (\<forall>k<nat (hop s). ola_sum (nat (fft_size s)) (nat (hop s)) (window_product s) k = ola_gain s)"

definition identity_stage :: "'p externals \<Rightarrow> real \<Rightarrow> bool" where
  "identity_stage ext enable \<longleftrightarrow>
     (\<forall>p x j. j < length x \<longrightarrow> snd (fft_p_run ext p x enable) j = x ! j)"

definition fftw_round_trip :: "'p externals \<Rightarrow> nat \<Rightarrow> bool" where
  "fftw_round_trip ext N \<longleftrightarrow>
     (\<forall>x j. length x = N \<and> j < N \<longrightarrow>
        fftw_hc2r ext (map (fftw_r2hc ext x) [0..<N]) j = real N * x ! j)"

definition stream :: "real list \<Rightarrow> int \<Rightarrow> real" where
  "stream inp i = (if 0 \<le> i \<and> i < int (length inp) then inp ! nat i else 0)"

definition ola_inv :: "real list \<Rightarrow> nat \<Rightarrow> 'p STFTprocessor \<Rightarrow> real list \<Rightarrow> bool" where
  "ola_inv inp m s out \<longleftrightarrow>
     (\<exists>r. r < nat (hop s) \<and> read_position s = input_latency s + int r \<and>
        (\<forall>k<nat (read_position s). in_fifo s ! k = stream inp (int m - read_position s + int k)) \<and>
        (\<forall>k<nat (hop s). out_fifo s ! k = stream inp (int m - int r - fft_size s + int k)) \<and>
        (\<forall>k<nat (fft_size s).
           output_accum s ! k =
             stream inp (int m - int r - fft_size s + hop s + int k)
             * ola_sum (nat (fft_size s)) (nat (hop s)) (window_product s) (k + nat (hop s)) / ola_gain s)) \<and>
     (\<forall>j<m. out ! j = stream inp (int j - fft_size s))"

subsection \<open>Example configurations and states\<close>

text \<open>
  A small instance to evaluate the model on: transform size 4, hop 2, a Hann window of
  length 4 for window type 0 and a rectangular window for the other types, the real
  discrete Fourier transform of size 4 in FFTW's half-complex layout, and a spectral
  stage that counts its calls, passes the spectrum through when \<open>enable = 0\<close> and
  halves it otherwise. \<open>wit_init\<close> is the state after initialisation, \<open>wit_run3\<close> and
  \<open>wit_run7\<close> the states after the samples \<open>1, 2, 3\<close> and \<open>1, ..., 7\<close>, \<open>wit_reset\<close> the
  state after a reset of \<open>wit_run3\<close>. \<open>wit_run4\<close> and \<open>wit_half\<close> are the states that
  the sample \<open>4\<close> leads to from \<open>wit_run3\<close>, with \<open>enable = 0\<close> and with
  \<open>enable = 1\<close>. \<open>pad_cfg\<close> has \<open>block_size = 2\<close> below the transform size.

  \<open>flat_ext\<close> serves the compiled-in configuration, where a transform of size 2048
  cannot be written out: rectangular windows, a transform pair that leaves the frame as
  it is and multiplies by the size on the way back (as the unnormalised pair of FFTW
  does), and a spectral stage that changes nothing. \<open>flat_init\<close> is the state that
  \<open>stft_p_init\<close> returns with it.
\<close>

definition wit_ext :: "nat externals" where
  "wit_ext = \<lparr>window_coeff = (\<lambda>t N k. if t = 0 then (if k = 0 then 0 else if k = 2 then 1 else 1 / 2) else 1),
              fftw_r2hc = (\<lambda>x j. if j = 0 then x ! 0 + x ! 1 + x ! 2 + x ! 3
                                  else if j = 1 then x ! 0 - x ! 2
                                  else if j = 2 then x ! 0 - x ! 1 + x ! 2 - x ! 3
                                  else x ! 3 - x ! 1),
              fftw_hc2r = (\<lambda>y j. if j = 0 then y ! 0 + 2 * y ! 1 + y ! 2
                                  else if j = 1 then y ! 0 - y ! 2 - 2 * y ! 3
                                  else if j = 2 then y ! 0 - 2 * y ! 1 + y ! 2
                                  else y ! 0 - y ! 2 + 2 * y ! 3),
              fft_p_run = (\<lambda>p x e. (Suc p, (\<lambda>j. if e = 0 then x ! j else x ! j / 2))),
              fft_p_init = (\<lambda>n sr h. 0)\<rparr>"

definition wit_cfg :: stft_config where
  "wit_cfg = \<lparr>cfg_fft_size = 4, cfg_block_size = 4, cfg_input_window_type = 0,
              cfg_output_window_type = 1, cfg_overlap_factor = 2\<rparr>"

definition wit_init :: "nat STFTprocessor" where
  "wit_init = \<lparr>fft_size = 4, block_size = 4, window_option_input = 0,
     window_option_output = 1, overlap_factor = 2,
     overlap_scale_factor = 1 / 2, hop = 2, input_latency = 2,
     read_position = 2, input_window = [0, 1 / 2, 1, 1 / 2],
     output_window = [1, 1, 1, 1], in_fifo = [0, 0, 0, 0],
     out_fifo = [0, 0, 0, 0], output_accum = [0, 0, 0, 0, 0, 0, 0, 0],
     input_fft_buffer = [0, 0, 0, 0], output_fft_buffer = [0, 0, 0, 0],
     fft_processor = 0\<rparr>"

definition wit_run3 :: "nat STFTprocessor" where
  "wit_run3 = \<lparr>fft_size = 4, block_size = 4, window_option_input = 0,
      window_option_output = 1, overlap_factor = 2,
      overlap_scale_factor = 1 / 2, hop = 2, input_latency = 2,
      read_position = 3, input_window = [0, 1 / 2, 1, 1 / 2],
      output_window = [1, 1, 1, 1], in_fifo = [1, 2, 3, 2],
      out_fifo = [0, 0, 0, 0], output_accum = [1, 1, 0, 0, 0, 0, 0, 0],
      input_fft_buffer = [0, 0, 1, 1], output_fft_buffer = [2, - 1, 0, 1],
      fft_processor = 1\<rparr>"

definition wit_reset :: "nat STFTprocessor" where
  "wit_reset = \<lparr>fft_size = 4, block_size = 4, window_option_input = 0,
     window_option_output = 1, overlap_factor = 2,
     overlap_scale_factor = 1 / 2, hop = 2, input_latency = 2,
     read_position = 3, input_window = [0, 0, 0, 0],
     output_window = [0, 0, 0, 0], in_fifo = [0, 0, 0, 0],
     out_fifo = [0, 0, 0, 0], output_accum = [0, 0, 0, 0, 0, 0, 0, 0],
     input_fft_buffer = [0, 0, 0, 0], output_fft_buffer = [0, 0, 0, 0],
     fft_processor = 1\<rparr>"


definition pad_cfg :: stft_config where
  "pad_cfg = \<lparr>cfg_fft_size = 4, cfg_block_size = 2, cfg_input_window_type = 0,
              cfg_output_window_type = 1, cfg_overlap_factor = 2\<rparr>"

definition pad_init :: "nat STFTprocessor" where
  "pad_init = \<lparr>fft_size = 4, block_size = 2, window_option_input = 0,
     window_option_output = 1, overlap_factor = 2,
     overlap_scale_factor = 1 / 4, hop = 2, input_latency = 2,
     read_position = 2, input_window = [0, 1 / 2, 0, 0],
     output_window = [1, 1, 0, 0], in_fifo = [0, 0],
     out_fifo = [0, 0], output_accum = [0, 0, 0, 0],
     input_fft_buffer = [0, 0, 0, 0], output_fft_buffer = [0, 0, 0, 0],
     fft_processor = 0\<rparr>"

definition pad_state :: "nat STFTprocessor" where
  "pad_state = pad_init\<lparr>input_fft_buffer := [1, 2, 3, 4]\<rparr>"

definition wit_run7 :: "nat STFTprocessor" where
  "wit_run7 = \<lparr>fft_size = 4, block_size = 4, window_option_input = 0,
      window_option_output = 1, overlap_factor = 2,
      overlap_scale_factor = 1 / 2, hop = 2, input_latency = 2,
      read_position = 3, input_window = [0, 1 / 2, 1, 1 / 2],
      output_window = [1, 1, 1, 1], in_fifo = [5, 6, 7, 6],
      out_fifo = [3, 4, 0, 0], output_accum = [5, 3, 0, 0, 0, 0, 0, 0],
      input_fft_buffer = [0, 2, 5, 3], output_fft_buffer = [10, - 5, 0, 1],
      fft_processor = 3\<rparr>"

definition wit_run4 :: "nat STFTprocessor" where
  "wit_run4 = \<lparr>fft_size = 4, block_size = 4, window_option_input = 0,
      window_option_output = 1, overlap_factor = 2,
      overlap_scale_factor = 1 / 2, hop = 2, input_latency = 2,
      read_position = 2, input_window = [0, 1 / 2, 1, 1 / 2],
      output_window = [1, 1, 1, 1], in_fifo = [3, 4, 3, 4],
      out_fifo = [1, 2, 0, 0], output_accum = [3, 2, 0, 0, 0, 0, 0, 0],
      input_fft_buffer = [0, 1, 3, 2], output_fft_buffer = [6, - 3, 0, 1],
      fft_processor = 2\<rparr>"


definition flat_ext :: "unit externals" where
  "flat_ext = \<lparr>window_coeff = (\<lambda>t N k. 1),
               fftw_r2hc = (\<lambda>x j. x ! j),
               fftw_hc2r = (\<lambda>y j. real (length y) * y ! j),
               fft_p_run = (\<lambda>p x e. (p, (\<lambda>j. x ! j))),
               fft_p_init = (\<lambda>n sr h. ())\<rparr>"

definition flat_init :: "unit STFTprocessor" where
  "flat_init = initial_state flat_ext default_config 44100"

section \<open>Lemmas\<close>

subsection \<open>Loops\<close>

lemma for_each_append:
  "for_each (ks @ ls) body s = (case for_each ks body s of None \<Rightarrow> None | Some s' \<Rightarrow> for_each ls body s')"
  by (induction ks arbitrary: s) (auto split: option.splits)

lemma for_upto_Suc:
  "for_upto (int (Suc m)) body s =
     (case for_upto (int m) body s of None \<Rightarrow> None | Some s' \<Rightarrow> body (int m) s')"
  unfolding for_upto_def nat_int
  by (simp add: for_each_append split: option.splits)

lemma for_each_preserves:
  assumes "for_each ks body s = Some s'" "P s"
    and "\<And>k t t'. k \<in> set ks \<Longrightarrow> P t \<Longrightarrow> body k t = Some t' \<Longrightarrow> P t'"
  shows "P s'"
  using assms
proof (induction ks arbitrary: s)
  case Nil
  then show ?case by simp
next
  case (Cons k ks)
  from Cons.prems(1) obtain t where t: "body k s = Some t" "for_each ks body t = Some s'"
    by (auto split: option.splits)
  have "P t" using Cons.prems(3) [of k s t] Cons.prems(2) t(1) by simp
  then show ?case
    using Cons.IH [OF t(2)] Cons.prems(3) by (meson list.set_intros(2))
qed

lemma list_update_append_drop:
  "length xs = m \<Longrightarrow> m < length a \<Longrightarrow> (xs @ drop m a)[m := v] = (xs @ [v]) @ drop (Suc m) a"
  by (simp add: list_update_append Cons_nth_drop_Suc [symmetric] upd_conv_take_nth_drop)

lemma for_upto_pointwise_nat:
  assumes "m \<le> length a"
    and "\<And>k b. k < m \<Longrightarrow> length b = length a \<Longrightarrow> (\<forall>j. k \<le> j \<and> j < length a \<longrightarrow> b ! j = a ! j)
            \<Longrightarrow> body (int k) b = Some (b[k := g k])"
  shows "for_upto (int m) body a = Some (map g [0..<m] @ drop m a)"
  using assms
proof (induction m)
  case 0
  then show ?case by (simp add: for_upto_def)
next
  case (Suc m)
  have IH: "for_upto (int m) body a = Some (map g [0..<m] @ drop m a)"
    by (rule Suc.IH) (use Suc.prems in auto)
  let ?b = "map g [0..<m] @ drop m a"
  have "body (int m) ?b = Some (?b[m := g m])"
    by (rule Suc.prems(2)) (use Suc.prems(1) in \<open>auto simp: nth_append\<close>)
  moreover have "?b[m := g m] = map g [0..<Suc m] @ drop (Suc m) a"
    using list_update_append_drop [of "map g [0..<m]" m a "g m"] Suc.prems(1) by simp
  ultimately show ?case
    unfolding for_upto_Suc IH by simp
qed

lemma for_upto_pointwise:
  assumes "0 \<le> n" "n \<le> int (length a)"
    and "\<And>k b. k < nat n \<Longrightarrow> length b = length a \<Longrightarrow> (\<forall>j. k \<le> j \<and> j < length a \<longrightarrow> b ! j = a ! j)
            \<Longrightarrow> body (int k) b = Some (b[k := g k])"
  shows "for_upto n body a = Some (map g [0..<nat n] @ drop (nat n) a)"
  using for_upto_pointwise_nat [of "nat n" a body g] assms by simp

lemma array_get_Some: "0 \<le> i \<Longrightarrow> i < int (length a) \<Longrightarrow> array_get a i = Some (a ! nat i)"
  by (simp add: array_get_def)

lemma array_set_Some: "0 \<le> i \<Longrightarrow> i < int (length a) \<Longrightarrow> array_set a i v = Some (a[nat i := v])"
  by (simp add: array_set_def)

lemma fill_loop:
  assumes "0 \<le> n" "n \<le> int (length a)"
  shows "for_upto n (\<lambda>k b. array_set b k (g k)) a = Some (map (\<lambda>k. g (int k)) [0..<nat n] @ drop (nat n) a)"
  by (rule for_upto_pointwise [OF assms(1,2)]) (use assms in \<open>simp add: array_set_Some\<close>)

lemma windowing_loop:
  assumes "0 \<le> n" "n \<le> int (length buf)" "n \<le> int (length w)"
  shows "for_upto n (\<lambda>k b. do { x \<leftarrow> array_get b k; c \<leftarrow> array_get w k; array_set b k (x * c) }) buf
         = Some (map (\<lambda>k. buf ! k * w ! k) [0..<nat n] @ drop (nat n) buf)"
  by (rule for_upto_pointwise [OF assms(1,2)]) (use assms in \<open>simp add: array_get_Some array_set_Some\<close>)

lemma normalising_loop:
  assumes "0 \<le> n" "n \<le> int (length buf)"
  shows "for_upto n (\<lambda>k b. do { x \<leftarrow> array_get b k; array_set b k (x / d) }) buf
         = Some (map (\<lambda>k. buf ! k / d) [0..<nat n] @ drop (nat n) buf)"
  by (rule for_upto_pointwise [OF assms(1,2)]) (use assms in \<open>simp add: array_get_Some array_set_Some\<close>)

lemma scaling_loop:
  assumes "0 \<le> n" "n \<le> int (length buf)" "n \<le> int (length w)"
  shows "for_upto n (\<lambda>k b. do { c \<leftarrow> array_get w k; x \<leftarrow> array_get b k; array_set b k ((c * x) / d) }) buf
         = Some (map (\<lambda>k. (w ! k * buf ! k) / d) [0..<nat n] @ drop (nat n) buf)"
  by (rule for_upto_pointwise [OF assms(1,2)]) (use assms in \<open>simp add: array_get_Some array_set_Some\<close>)

lemma accumulation_loop:
  assumes "0 \<le> n" "n \<le> int (length acc)" "n \<le> int (length buf)"
  shows "for_upto n (\<lambda>k a. do { y \<leftarrow> array_get a k; x \<leftarrow> array_get buf k; array_set a k (y + x) }) acc
         = Some (map (\<lambda>k. acc ! k + buf ! k) [0..<nat n] @ drop (nat n) acc)"
  by (rule for_upto_pointwise [OF assms(1,2)]) (use assms in \<open>simp add: array_get_Some array_set_Some\<close>)

lemma emit_loop:
  assumes "0 \<le> n" "n \<le> int (length fifo)" "n \<le> int (length acc)"
  shows "for_upto n (\<lambda>k f. do { a \<leftarrow> array_get acc k; array_set f k a }) fifo
         = Some (take (nat n) acc @ drop (nat n) fifo)"
proof -
  have "for_upto n (\<lambda>k f. do { a \<leftarrow> array_get acc k; array_set f k a }) fifo
         = Some (map (\<lambda>k. acc ! k) [0..<nat n] @ drop (nat n) fifo)"
    by (rule for_upto_pointwise [OF assms(1,2)]) (use assms in \<open>simp add: array_get_Some array_set_Some\<close>)
  moreover have "map (\<lambda>k. acc ! k) [0..<nat n] = take (nat n) acc"
    using assms by (auto simp: list_eq_iff_nth_eq)
  ultimately show ?thesis by simp
qed

lemma shift_loop:
  assumes "0 \<le> n" "0 \<le> h" "n + h \<le> int (length fifo)"
  shows "for_upto n (\<lambda>k f. do { x \<leftarrow> array_get f (k + h); array_set f k x }) fifo
         = Some (take (nat n) (drop (nat h) fifo) @ drop (nat n) fifo)"
proof -
  have "for_upto n (\<lambda>k f. do { x \<leftarrow> array_get f (k + h); array_set f k x }) fifo
         = Some (map (\<lambda>k. fifo ! (k + nat h)) [0..<nat n] @ drop (nat n) fifo)"
    by (rule for_upto_pointwise) (use assms in \<open>auto simp add: array_get_Some array_set_Some nat_add_distrib\<close>)
  moreover have "map (\<lambda>k. fifo ! (k + nat h)) [0..<nat n] = take (nat n) (drop (nat h) fifo)"
    using assms by (auto simp: list_eq_iff_nth_eq add.commute)
  ultimately show ?thesis by simp
qed

lemma sum_loop_nat:
  assumes "m \<le> length a" "m \<le> length b"
  shows "for_upto (int m) (\<lambda>i sum. do { x \<leftarrow> array_get a i; y \<leftarrow> array_get b i; Some (sum + x * y) }) (0::real)
         = Some (\<Sum>i<m. a ! i * b ! i)"
  using assms
proof (induction m)
  case 0
  then show ?case by (simp add: for_upto_def)
next
  case (Suc m)
  then show ?case
    unfolding for_upto_Suc by (simp add: array_get_Some)
qed

lemma sum_loop:
  assumes "0 \<le> n" "n \<le> int (length a)" "n \<le> int (length b)"
  shows "for_upto n (\<lambda>i sum. do { x \<leftarrow> array_get a i; y \<leftarrow> array_get b i; Some (sum + x * y) }) (0::real)
         = Some (\<Sum>i<nat n. a ! i * b ! i)"
  using sum_loop_nat [of "nat n" a b] assms by simp

subsection \<open>The operations on well-shaped states\<close>

lemma stft_p_analysis_exact:
  assumes "stft_shape s"
  shows "stft_p_analysis ext s =
           Some (s\<lparr>input_fft_buffer := windowed_frame s,
                   output_fft_buffer := map (fftw_r2hc ext (windowed_frame s)) [0..<nat (fft_size s)]\<rparr>)"
proof -
  have F: "0 \<le> fft_size s" "fft_size s \<le> int (length (input_fft_buffer s))"
    "fft_size s \<le> int (length (input_window s))" "\<not> block_size s < fft_size s"
    "length (output_fft_buffer s) = nat (fft_size s)" "length (input_fft_buffer s) = nat (fft_size s)"
    using assms by (auto simp: stft_shape_def)
  have L: "for_upto (fft_size s)
             (\<lambda>k buf. do { x \<leftarrow> array_get buf k; w \<leftarrow> array_get (input_window s) k; array_set buf k (x * w) })
             (input_fft_buffer s) = Some (windowed_frame s)"
    using windowing_loop [OF F(1,2,3)] F by (simp add: windowed_frame_def)
  show ?thesis
    using F by (simp add: stft_p_analysis_def L fftwf_execute_forward_def windowed_frame_def Let_def)
qed

lemma stft_p_synthesis_exact:
  assumes "stft_shape s"
  shows "stft_p_synthesis ext s =
           Some (s\<lparr>input_fft_buffer := synthesis_frame ext s,
                   output_accum := take (nat (block_size s)) (drop (nat (hop s)) (overlap_added s (synthesis_frame ext s)))
                                   @ drop (nat (block_size s)) (overlap_added s (synthesis_frame ext s)),
                   out_fifo := take (nat (hop s)) (overlap_added s (synthesis_frame ext s)) @ drop (nat (hop s)) (out_fifo s),
                   in_fifo := take (nat (input_latency s)) (drop (nat (hop s)) (in_fifo s))
                              @ drop (nat (input_latency s)) (in_fifo s)\<rparr>)"
proof -
  let ?F = "fft_size s"
  let ?T = "map (fftw_hc2r ext (output_fft_buffer s)) [0..<nat ?F]"
  have F: "0 \<le> ?F" "block_size s = ?F" "0 < hop s" "hop s \<le> ?F" "input_latency s = ?F - hop s"
    "length (input_fft_buffer s) = nat ?F" "length (output_fft_buffer s) = nat ?F"
    "length (output_window s) = nat ?F" "length (in_fifo s) = nat ?F" "length (out_fifo s) = nat ?F"
    "length (output_accum s) = nat (?F * 2)"
    using assms by (auto simp: stft_shape_def)
  have B: "fftwf_execute_backward ext s = Some (s\<lparr>input_fft_buffer := ?T\<rparr>)"
    using F by (simp add: fftwf_execute_backward_def)
  have N: "for_upto ?F (\<lambda>k buf. do { x \<leftarrow> array_get buf k; array_set buf k (x / real_of_int ?F) }) ?T
           = Some (map (\<lambda>k. ?T ! k / real_of_int ?F) [0..<nat ?F])"
    using normalising_loop [of ?F ?T "real_of_int ?F"] F by simp
  let ?N = "map (\<lambda>k. ?T ! k / real_of_int ?F) [0..<nat ?F]"
  let ?d = "overlap_scale_factor s * real_of_int (overlap_factor s)"
  have S: "for_upto ?F (\<lambda>k buf. do { w \<leftarrow> array_get (output_window s) k; x \<leftarrow> array_get buf k;
                                     array_set buf k ((w * x) / ?d) }) ?N
           = Some (synthesis_frame ext s)"
    using scaling_loop [of ?F ?N "output_window s" ?d] F
    by (simp add: synthesis_frame_def)
  let ?Y = "synthesis_frame ext s"
  have lenY: "length ?Y = nat ?F" by (simp add: synthesis_frame_def)
  have A: "for_upto (block_size s) (\<lambda>k acc. do { a \<leftarrow> array_get acc k; x \<leftarrow> array_get ?Y k; array_set acc k (a + x) })
             (output_accum s) = Some (overlap_added s ?Y)"
    using accumulation_loop [of "block_size s" "output_accum s" ?Y] F lenY
    by (simp add: overlap_added_def)
  let ?A = "overlap_added s ?Y"
  have lenA: "length ?A = nat (?F * 2)"
    using F by (simp add: overlap_added_def)
  have E: "for_upto (hop s) (\<lambda>k fifo. do { a \<leftarrow> array_get ?A k; array_set fifo k a }) (out_fifo s)
           = Some (take (nat (hop s)) ?A @ drop (nat (hop s)) (out_fifo s))"
    using emit_loop [of "hop s" "out_fifo s" ?A] F lenA by simp
  have M: "array_memmove_down ?A (hop s) (block_size s)
           = Some (take (nat (block_size s)) (drop (nat (hop s)) ?A) @ drop (nat (block_size s)) ?A)"
    using F lenA by (simp add: array_memmove_down_def)
  have I: "for_upto (input_latency s) (\<lambda>k fifo. do { x \<leftarrow> array_get fifo (k + hop s); array_set fifo k x }) (in_fifo s)
           = Some (take (nat (input_latency s)) (drop (nat (hop s)) (in_fifo s)) @ drop (nat (input_latency s)) (in_fifo s))"
    using shift_loop [of "input_latency s" "hop s" "in_fifo s"] F by simp
  show ?thesis
    unfolding stft_p_synthesis_def B
    by (simp add: N S A E M I)
qed

lemma stft_shape_analysed: "stft_shape s \<Longrightarrow> stft_shape (analysed ext s)"
  by (simp add: stft_shape_def analysed_def windowed_frame_def)

lemma stft_shape_processed: "stft_shape s \<Longrightarrow> stft_shape (processed ext e s)"
  by (simp add: stft_shape_def processed_def)

lemma length_overlap_added:
  "stft_shape s \<Longrightarrow> length (overlap_added s y) = nat (block_size s * 2)"
  by (auto simp: stft_shape_def overlap_added_def)

lemma stft_shape_synthesised: "stft_shape s \<Longrightarrow> stft_shape (synthesised ext s)"
proof -
  assume sh: "stft_shape s"
  have F: "0 < hop s" "hop s \<le> fft_size s" "block_size s = fft_size s"
    "input_latency s = fft_size s - hop s"
    "length (input_window s) = nat (fft_size s)" "length (output_window s) = nat (fft_size s)"
    "length (in_fifo s) = nat (fft_size s)" "length (out_fifo s) = nat (fft_size s)"
    "length (output_accum s) = nat (fft_size s * 2)"
    "length (input_fft_buffer s) = nat (fft_size s)" "length (output_fft_buffer s) = nat (fft_size s)"
    using sh by (auto simp: stft_shape_def)
  have A: "length (overlap_added s (synthesis_frame ext s)) = nat (fft_size s * 2)"
    using length_overlap_added [OF sh, of "synthesis_frame ext s"] F by simp
  have N: "nat (hop s) \<le> nat (fft_size s)" "nat (fft_size s * 2) = nat (fft_size s) + nat (fft_size s)"
    "nat (fft_size s - hop s) = nat (fft_size s) - nat (hop s)"
    using F(1,2) by linarith+
  have 1: "length (input_fft_buffer (synthesised ext s)) = nat (fft_size s)"
    by (simp add: synthesised_def synthesis_frame_def)
  have 2: "length (output_accum (synthesised ext s)) = nat (fft_size s * 2)"
    using N(1) by (simp add: synthesised_def A F(3) N(2))
  have 3: "length (out_fifo (synthesised ext s)) = nat (fft_size s)"
    using N(1) by (simp add: synthesised_def A F(8) N(2))
  have 4: "length (in_fifo (synthesised ext s)) = nat (fft_size s)"
    using N(1) by (simp add: synthesised_def F(4,7) N(3))
  have 5: "fft_size (synthesised ext s) = fft_size s" "block_size (synthesised ext s) = block_size s"
    "hop (synthesised ext s) = hop s" "input_latency (synthesised ext s) = input_latency s"
    "input_window (synthesised ext s) = input_window s" "output_window (synthesised ext s) = output_window s"
    "output_fft_buffer (synthesised ext s) = output_fft_buffer s"
    by (simp_all add: synthesised_def)
  show ?thesis
    unfolding stft_shape_def 1 2 3 4 5 using F by simp
qed

lemma stft_shape_pushed: "stft_shape s \<Longrightarrow> stft_shape (pushed s x)"
  by (simp add: stft_shape_def pushed_def)

lemma stft_shape_prepared:
  "stft_shape s \<Longrightarrow> stft_shape (s\<lparr>input_fft_buffer := in_fifo s, read_position := input_latency s\<rparr>)"
  by (simp add: stft_shape_def)

lemma stft_shape_cycled: "stft_shape s \<Longrightarrow> stft_shape (cycled ext e s)"
  unfolding cycled_def
  by (intro stft_shape_synthesised stft_shape_processed stft_shape_analysed stft_shape_prepared)

lemma stft_p_processing_exact: "stft_p_processing ext s e = Some (processed ext e s)"
  by (simp add: stft_p_processing_def processed_def split: prod.splits)

lemma stft_p_cycle_exact:
  assumes "stft_shape s"
  shows "stft_p_cycle ext e s = Some (cycled ext e s)"
proof -
  let ?s1 = "s\<lparr>input_fft_buffer := in_fifo s, read_position := input_latency s\<rparr>"
  have cp: "array_memcpy (input_fft_buffer s) (in_fifo s) (block_size s) = Some (in_fifo s)"
    using assms by (auto simp: array_memcpy_def stft_shape_def)
  have s1: "stft_shape ?s1" by (rule stft_shape_prepared [OF assms])
  have a: "stft_p_analysis ext ?s1 = Some (analysed ext ?s1)"
    using stft_p_analysis_exact [OF s1, of ext] by (simp add: analysed_def)
  have s3: "stft_shape (processed ext e (analysed ext ?s1))"
    by (intro stft_shape_processed stft_shape_analysed s1)
  have c: "stft_p_synthesis ext (processed ext e (analysed ext ?s1))
           = Some (synthesised ext (processed ext e (analysed ext ?s1)))"
    using stft_p_synthesis_exact [OF s3, of ext] by (simp add: synthesised_def)
  show ?thesis
    by (simp add: stft_p_cycle_def cp a stft_p_processing_exact c cycled_def)
qed

lemma stft_p_run_sample_exact:
  assumes "stft_shape s" "input_latency s \<le> read_position s" "read_position s < block_size s"
    and "0 \<le> k" "k < int (length input)" "k < int (length output)"
  shows "stft_p_run_sample ext e input k (s, output) =
           Some (stepped ext e s (input ! nat k),
                 output[nat k := out_fifo s ! nat (read_position s - input_latency s)])"
proof -
  have b: "0 \<le> read_position s" "read_position s < int (length (in_fifo s))"
    "read_position s - input_latency s < int (length (out_fifo s))"
    using assms by (auto simp: stft_shape_def)
  have c: "stft_p_cycle ext e (pushed s x) = Some (cycled ext e (pushed s x))" for x
    by (rule stft_p_cycle_exact [OF stft_shape_pushed [OF assms(1)]])
  show ?thesis
    using assms(2-) b c [of "input ! nat k"]
    by (simp add: stft_p_run_sample_def array_get_Some array_set_Some stepped_def pushed_def Let_def)
qed

lemma cycled_config [simp]:
  "fft_size (cycled ext e s) = fft_size s"
  "block_size (cycled ext e s) = block_size s"
  "window_option_input (cycled ext e s) = window_option_input s"
  "window_option_output (cycled ext e s) = window_option_output s"
  "overlap_factor (cycled ext e s) = overlap_factor s"
  "overlap_scale_factor (cycled ext e s) = overlap_scale_factor s"
  "hop (cycled ext e s) = hop s"
  "input_latency (cycled ext e s) = input_latency s"
  "input_window (cycled ext e s) = input_window s"
  "output_window (cycled ext e s) = output_window s"
  by (simp_all add: cycled_def synthesised_def processed_def analysed_def)

lemma cycled_read_position [simp]: "read_position (cycled ext e s) = input_latency s"
  by (simp add: cycled_def synthesised_def processed_def analysed_def)

lemma cycled_in_fifo:
  "in_fifo (cycled ext e s) =
     take (nat (input_latency s)) (drop (nat (hop s)) (in_fifo s)) @ drop (nat (input_latency s)) (in_fifo s)"
  by (simp add: cycled_def synthesised_def processed_def analysed_def)

lemma cycled_output_accum:
  "output_accum (cycled ext e s) =
     take (nat (block_size s)) (drop (nat (hop s)) (overlap_added s (cycle_frame ext e s)))
     @ drop (nat (block_size s)) (overlap_added s (cycle_frame ext e s))"
  by (simp add: cycled_def synthesised_def processed_def analysed_def cycle_frame_def overlap_added_def)

lemma cycled_out_fifo:
  "out_fifo (cycled ext e s) =
     take (nat (hop s)) (overlap_added s (cycle_frame ext e s)) @ drop (nat (hop s)) (out_fifo s)"
  by (simp add: cycled_def synthesised_def processed_def analysed_def cycle_frame_def overlap_added_def)

lemma pushed_fields [simp]:
  "fft_size (pushed s x) = fft_size s"
  "block_size (pushed s x) = block_size s"
  "window_option_input (pushed s x) = window_option_input s"
  "window_option_output (pushed s x) = window_option_output s"
  "overlap_factor (pushed s x) = overlap_factor s"
  "overlap_scale_factor (pushed s x) = overlap_scale_factor s"
  "hop (pushed s x) = hop s"
  "input_latency (pushed s x) = input_latency s"
  "input_window (pushed s x) = input_window s"
  "output_window (pushed s x) = output_window s"
  "read_position (pushed s x) = read_position s + 1"
  "in_fifo (pushed s x) = (in_fifo s)[nat (read_position s) := x]"
  "out_fifo (pushed s x) = out_fifo s"
  "output_accum (pushed s x) = output_accum s"
  "input_fft_buffer (pushed s x) = input_fft_buffer s"
  "output_fft_buffer (pushed s x) = output_fft_buffer s"
  "fft_processor (pushed s x) = fft_processor s"
  by (simp_all add: pushed_def)

lemma stepped_config [simp]:
  "fft_size (stepped ext e s x) = fft_size s"
  "block_size (stepped ext e s x) = block_size s"
  "window_option_input (stepped ext e s x) = window_option_input s"
  "window_option_output (stepped ext e s x) = window_option_output s"
  "overlap_factor (stepped ext e s x) = overlap_factor s"
  "overlap_scale_factor (stepped ext e s x) = overlap_scale_factor s"
  "hop (stepped ext e s x) = hop s"
  "input_latency (stepped ext e s x) = input_latency s"
  "input_window (stepped ext e s x) = input_window s"
  "output_window (stepped ext e s x) = output_window s"
  by (simp_all add: stepped_def)

subsection \<open>The invariant of the run loop\<close>

lemma overlap_added_tail:
  assumes "nat (block_size s) \<le> i" "nat (block_size s) \<le> length (output_accum s)"
  shows "overlap_added s y ! i = output_accum s ! i"
  using assms by (simp add: overlap_added_def nth_append)

lemma cycled_accum_tail:
  assumes "stft_shape s" "nat (block_size s) \<le> i" "i < nat (block_size s * 2)"
  shows "output_accum (cycled ext e s) ! i = output_accum s ! i"
proof -
  let ?A = "overlap_added s (cycle_frame ext e s)"
  let ?B = "nat (block_size s)"
  have F: "0 < hop s" "hop s \<le> fft_size s" "block_size s = fft_size s"
    using assms(1) by (auto simp: stft_shape_def)
  have N: "nat (hop s) \<le> ?B" "nat (block_size s * 2) = ?B + ?B"
    using F by linarith+
  have lenA: "length ?A = ?B + ?B"
    using length_overlap_added [OF assms(1)] N by simp
  have len1: "length (take ?B (drop (nat (hop s)) ?A)) = ?B"
    using N(1) by (simp add: lenA)
  have "output_accum (cycled ext e s) ! i = drop ?B ?A ! (i - ?B)"
    unfolding cycled_output_accum using assms(2) len1 by (simp add: nth_append)
  also have "\<dots> = ?A ! i"
    using assms(2,3) N lenA by simp
  finally show ?thesis
    using overlap_added_tail [OF assms(2)] assms(1) N by (simp add: stft_shape_def)
qed

lemma stft_inv_stepped:
  assumes "stft_inv s"
  shows "stft_inv (stepped ext e s x)"
proof (cases "read_position s + 1 \<ge> block_size s")
  case True
  have sh: "stft_shape (pushed s x)"
    using assms by (simp add: stft_inv_def stft_shape_pushed)
  have F: "0 < hop s" "block_size s = fft_size s" "input_latency s = fft_size s - hop s"
    using assms by (auto simp: stft_inv_def stft_shape_def)
  have "stft_shape (cycled ext e (pushed s x))"
    by (rule stft_shape_cycled [OF sh])
  moreover have "\<forall>i. nat (block_size s) \<le> i \<and> i < nat (block_size s * 2)
                   \<longrightarrow> output_accum (cycled ext e (pushed s x)) ! i = 0"
    using cycled_accum_tail [OF sh, of _ ext e] assms by (simp add: stft_inv_def)
  ultimately show ?thesis
    using True F by (simp add: stft_inv_def stepped_def)
next
  case False
  then show ?thesis
    using assms by (simp add: stft_inv_def stepped_def stft_shape_pushed)
qed

lemma stft_p_run_sample_SomeD:
  assumes "stft_p_run_sample ext e input k (s, output) = Some r"
  shows "0 \<le> k \<and> k < int (length input) \<and> k < int (length output)"
  using assms
  by (auto simp: stft_p_run_sample_def array_get_def array_set_def Let_def
           split: if_splits bind_splits)

lemma stft_p_run_sample_inv:
  assumes "stft_p_run_sample ext e input k (s, output) = Some (s', output')" "stft_inv s"
  shows "s' = stepped ext e s (input ! nat k) \<and>
         output' = output[nat k := out_fifo s ! nat (read_position s - input_latency s)]"
proof -
  have b: "0 \<le> k" "k < int (length input)" "k < int (length output)"
    using stft_p_run_sample_SomeD [OF assms(1)] by auto
  show ?thesis
    using stft_p_run_sample_exact [of s k input "output" ext e] assms b
    by (simp add: stft_inv_def)
qed

lemma stft_p_run_preserves:
  assumes "stft_p_run ext s n input output e = Some (s', output')" "stft_inv s"
  shows "stft_inv s' \<and> length output' = length output \<and>
         fft_size s' = fft_size s \<and> block_size s' = block_size s \<and>
         window_option_input s' = window_option_input s \<and>
         window_option_output s' = window_option_output s \<and>
         overlap_factor s' = overlap_factor s \<and> overlap_scale_factor s' = overlap_scale_factor s \<and>
         hop s' = hop s \<and> input_latency s' = input_latency s \<and>
         input_window s' = input_window s \<and> output_window s' = output_window s"
proof -
  let ?P = "\<lambda>st. stft_inv (fst st) \<and> length (snd st) = length output \<and>
         fft_size (fst st) = fft_size s \<and> block_size (fst st) = block_size s \<and>
         window_option_input (fst st) = window_option_input s \<and>
         window_option_output (fst st) = window_option_output s \<and>
         overlap_factor (fst st) = overlap_factor s \<and> overlap_scale_factor (fst st) = overlap_scale_factor s \<and>
         hop (fst st) = hop s \<and> input_latency (fst st) = input_latency s \<and>
         input_window (fst st) = input_window s \<and> output_window (fst st) = output_window s"
  have "?P (s', output')"
  proof (rule for_each_preserves [where P = ?P, OF assms(1) [unfolded stft_p_run_def for_upto_def]])
    show "?P (s, output)" using assms(2) by simp
  next
    fix k t t'
    assume P: "?P t" and b: "stft_p_run_sample ext e input k t = Some t'"
    obtain u ou where t: "t = (u, ou)" by (cases t)
    obtain u' ou' where t': "t' = (u', ou')" by (cases t')
    have "u' = stepped ext e u (input ! nat k) \<and>
          ou' = ou[nat k := out_fifo u ! nat (read_position u - input_latency u)]"
      using stft_p_run_sample_inv [of ext e input k u ou u' ou'] b P by (simp add: t t')
    then show "?P t'"
      using P stft_inv_stepped [of u ext e "input ! nat k"] by (simp add: t t')
  qed
  then show ?thesis by simp
qed

subsection \<open>Window setup, reset and initialisation\<close>

lemma fft_window_exact:
  assumes "0 \<le> n" "n \<le> int (length w)"
  shows "fft_window ext w n t = Some (map (\<lambda>k. window_coeff ext t n (int k)) [0..<nat n] @ drop (nat n) w)"
  unfolding fft_window_def by (rule fill_loop [OF assms])

lemma initialize_array_exact:
  assumes "0 \<le> n" "n \<le> int (length a)"
  shows "initialize_array a v n = Some (replicate (nat n) v @ drop (nat n) a)"
  unfolding initialize_array_def fill_loop [OF assms] by (simp add: map_replicate_const)

lemma stft_p_pre_and_post_window_exact:
  assumes "0 \<le> block_size s" "block_size s \<le> int (length (input_window s))"
    "block_size s \<le> int (length (output_window s))"
  shows "stft_p_pre_and_post_window ext s =
           Some (s\<lparr>input_window := generated_window ext (window_option_input s) (block_size s) (input_window s),
                   output_window := generated_window ext (window_option_output s) (block_size s) (output_window s),
                   overlap_scale_factor :=
                     (\<Sum>i<nat (block_size s).
                         generated_window ext (window_option_input s) (block_size s) (input_window s) ! i *
                         generated_window ext (window_option_output s) (block_size s) (output_window s) ! i)
                     / real_of_int (block_size s)\<rparr>)"
proof -
  let ?iw = "generated_window ext (window_option_input s) (block_size s) (input_window s)"
  let ?ow = "generated_window ext (window_option_output s) (block_size s) (output_window s)"
  have li: "block_size s \<le> int (length ?iw)" and lo: "block_size s \<le> int (length ?ow)"
    using assms by (auto simp: generated_window_def)
  have I: "(if window_option_input s = 0 then fft_window ext (input_window s) (block_size s) 0
            else if window_option_input s = 1 then fft_window ext (input_window s) (block_size s) 1
            else if window_option_input s = 2 then fft_window ext (input_window s) (block_size s) 2
            else if window_option_input s = 3 then fft_window ext (input_window s) (block_size s) 3
            else Some (input_window s)) = Some ?iw"
    using assms by (simp add: fft_window_exact generated_window_def)
  have O: "(if window_option_output s = 0 then fft_window ext (output_window s) (block_size s) 0
            else if window_option_output s = 1 then fft_window ext (output_window s) (block_size s) 1
            else if window_option_output s = 2 then fft_window ext (output_window s) (block_size s) 2
            else if window_option_output s = 3 then fft_window ext (output_window s) (block_size s) 3
            else Some (output_window s)) = Some ?ow"
    using assms by (simp add: fft_window_exact generated_window_def)
  show ?thesis
    unfolding stft_p_pre_and_post_window_def I O
    by (simp add: sum_loop [OF assms(1) li lo])
qed

lemma stft_p_reset_exact:
  assumes "0 \<le> fft_size s" "0 \<le> block_size s"
    "length (input_fft_buffer s) = nat (fft_size s)" "length (output_fft_buffer s) = nat (fft_size s)"
    "length (input_window s) = nat (fft_size s)" "length (output_window s) = nat (fft_size s)"
    "length (in_fifo s) = nat (block_size s)" "length (out_fifo s) = nat (block_size s)"
    "length (output_accum s) = nat (block_size s * 2)"
  shows "stft_p_reset s =
           Some (s\<lparr>input_fft_buffer := replicate (nat (fft_size s)) 0,
                   output_fft_buffer := replicate (nat (fft_size s)) 0,
                   input_window := replicate (nat (fft_size s)) 0,
                   output_window := replicate (nat (fft_size s)) 0,
                   in_fifo := replicate (nat (block_size s)) 0,
                   out_fifo := replicate (nat (block_size s)) 0,
                   output_accum := replicate (nat (block_size s * 2)) 0\<rparr>)"
  using assms by (simp add: stft_p_reset_def initialize_array_exact)

lemma sdiv_nonneg: "0 \<le> a \<Longrightarrow> 0 < b \<Longrightarrow> (a::int) sdiv b = a div b"
  by (simp add: signed_divide_int_def sgn_if)

lemma stft_p_init_with_exact:
  assumes "valid_config cfg"
  shows "stft_p_init_with ext cfg sr = Some (initial_state ext cfg sr)"
proof -
  let ?F = "cfg_fft_size cfg"
  have v: "cfg_block_size cfg = ?F" "1 \<le> cfg_overlap_factor cfg" "cfg_overlap_factor cfg \<le> ?F" "0 \<le> ?F"
    using assms by (auto simp: valid_config_def)
  have d: "?F sdiv cfg_overlap_factor cfg = ?F div cfg_overlap_factor cfg"
    using v by (simp add: sdiv_nonneg)
  let ?s0 = "\<lparr>fft_size = ?F, block_size = ?F,
           window_option_input = cfg_input_window_type cfg,
           window_option_output = cfg_output_window_type cfg,
           overlap_factor = cfg_overlap_factor cfg, overlap_scale_factor = 0,
           hop = ?F div cfg_overlap_factor cfg, input_latency = ?F - ?F div cfg_overlap_factor cfg,
           read_position = ?F - ?F div cfg_overlap_factor cfg,
           input_window = replicate (nat ?F) 0, output_window = replicate (nat ?F) 0,
           in_fifo = replicate (nat ?F) 0, out_fifo = replicate (nat ?F) 0,
           output_accum = replicate (nat (?F * 2)) 0,
           input_fft_buffer = replicate (nat ?F) 0, output_fft_buffer = replicate (nat ?F) 0,
           fft_processor = fft_p_init ext ?F sr (?F div cfg_overlap_factor cfg)\<rparr>"
  have r: "stft_p_reset ?s0 = Some ?s0"
    using v by (subst stft_p_reset_exact) simp_all
  have w: "stft_p_pre_and_post_window ext ?s0 = Some (initial_state ext cfg sr)"
    using v by (subst stft_p_pre_and_post_window_exact) (simp_all add: initial_state_def Let_def)
  show ?thesis
    using v by (simp add: stft_p_init_with_def d malloc_floats_def Let_def r w)
qed

lemma stft_inv_initial_state:
  assumes "valid_config cfg"
  shows "stft_inv (initial_state ext cfg sr)"
proof -
  let ?F = "cfg_fft_size cfg"
  have v: "1 \<le> cfg_overlap_factor cfg" "cfg_overlap_factor cfg \<le> ?F" "0 < ?F"
    using assms by (auto simp: valid_config_def)
  have h: "0 < ?F div cfg_overlap_factor cfg" "?F div cfg_overlap_factor cfg \<le> ?F"
    using v zdiv_mono2 [of ?F 1 "cfg_overlap_factor cfg"] by (simp_all add: pos_imp_zdiv_pos_iff)
  have g: "length (generated_window ext t ?F (replicate (nat ?F) 0)) = nat ?F" for t
    by (simp add: generated_window_def)
  show ?thesis
    using h v(3) by (simp add: stft_inv_def stft_shape_def initial_state_def Let_def g)
qed

lemma stft_p_reset_preserves:
  assumes "stft_inv s"
  shows "\<exists>s'. stft_p_reset s = Some s' \<and> stft_inv s' \<and>
         fft_size s' = fft_size s \<and> block_size s' = block_size s \<and>
         overlap_factor s' = overlap_factor s \<and> hop s' = hop s \<and>
         input_latency s' = input_latency s \<and> read_position s' = read_position s"
proof -
  have F: "0 \<le> fft_size s" "0 \<le> block_size s"
    "length (input_fft_buffer s) = nat (fft_size s)" "length (output_fft_buffer s) = nat (fft_size s)"
    "length (input_window s) = nat (fft_size s)" "length (output_window s) = nat (fft_size s)"
    "length (in_fifo s) = nat (block_size s)" "length (out_fifo s) = nat (block_size s)"
    "length (output_accum s) = nat (block_size s * 2)"
    using assms by (auto simp: stft_inv_def stft_shape_def)
  show ?thesis
    unfolding stft_p_reset_exact [OF F]
    using assms by (simp add: stft_inv_def stft_shape_def)
qed

lemma inner_product_nth:
  "inner_product xs ys = (\<Sum>i<min (length xs) (length ys). xs ! i * ys ! i)"
proof -
  have "inner_product xs ys = (\<Sum>i = 0..<length (map2 (*) xs ys). map2 (*) xs ys ! i)"
    unfolding inner_product_def by (rule sum_list_sum_nth)
  also have "\<dots> = (\<Sum>i = 0..<min (length xs) (length ys). xs ! i * ys ! i)"
    by (rule sum.cong) auto
  finally show ?thesis by (simp add: atLeast0LessThan)
qed

lemma inner_product_append:
  "length a = length b \<Longrightarrow> inner_product (a @ c) (b @ d) = inner_product a b + inner_product c d"
  by (simp add: inner_product_def)

lemma inner_product_zero: "inner_product (replicate n 0) ys = 0"
  by (simp add: inner_product_nth)

lemma stft_p_init_with_general:
  assumes "0 < cfg_block_size cfg" "cfg_block_size cfg \<le> cfg_fft_size cfg" "cfg_overlap_factor cfg \<noteq> 0"
  shows "\<exists>s. stft_p_init_with ext cfg sr = Some s \<and> block_size s = cfg_block_size cfg \<and>
           fft_size s = cfg_fft_size cfg \<and>
           input_window s = generated_window ext (cfg_input_window_type cfg) (cfg_block_size cfg)
                              (replicate (nat (cfg_fft_size cfg)) 0) \<and>
           output_window s = generated_window ext (cfg_output_window_type cfg) (cfg_block_size cfg)
                              (replicate (nat (cfg_fft_size cfg)) 0) \<and>
           overlap_scale_factor s =
             (\<Sum>i<nat (cfg_block_size cfg). input_window s ! i * output_window s ! i)
             / real_of_int (cfg_block_size cfg) \<and>
           overlap_factor s = cfg_overlap_factor cfg"
proof -
  let ?F = "cfg_fft_size cfg" and ?B = "cfg_block_size cfg"
  let ?h = "?F sdiv cfg_overlap_factor cfg"
  let ?s0 = "\<lparr>fft_size = ?F, block_size = ?B,
           window_option_input = cfg_input_window_type cfg,
           window_option_output = cfg_output_window_type cfg,
           overlap_factor = cfg_overlap_factor cfg, overlap_scale_factor = 0,
           hop = ?h, input_latency = ?F - ?h, read_position = ?F - ?h,
           input_window = replicate (nat ?F) 0, output_window = replicate (nat ?F) 0,
           in_fifo = replicate (nat ?B) 0, out_fifo = replicate (nat ?B) 0,
           output_accum = replicate (nat (?B * 2)) 0,
           input_fft_buffer = replicate (nat ?F) 0, output_fft_buffer = replicate (nat ?F) 0,
           fft_processor = fft_p_init ext ?F sr ?h\<rparr>"
  have r: "stft_p_reset ?s0 = Some ?s0"
    using assms by (subst stft_p_reset_exact) simp_all
  have w: "stft_p_pre_and_post_window ext ?s0 =
           Some (?s0\<lparr>input_window := generated_window ext (cfg_input_window_type cfg) ?B (replicate (nat ?F) 0),
                   output_window := generated_window ext (cfg_output_window_type cfg) ?B (replicate (nat ?F) 0),
                   overlap_scale_factor :=
                     (\<Sum>i<nat ?B.
                         generated_window ext (cfg_input_window_type cfg) ?B (replicate (nat ?F) 0) ! i *
                         generated_window ext (cfg_output_window_type cfg) ?B (replicate (nat ?F) 0) ! i)
                     / real_of_int ?B\<rparr>)"
    using assms by (subst stft_p_pre_and_post_window_exact) simp_all
  show ?thesis
    using assms by (simp add: stft_p_init_with_def malloc_floats_def Let_def r w)
qed

lemma inner_product_generated_window:
  assumes "0 \<le> B" "B \<le> F"
  shows "inner_product (generated_window ext t B (replicate (nat F) 0)) (generated_window ext u B (replicate (nat F) 0))
         = (\<Sum>i<nat B. generated_window ext t B (replicate (nat F) 0) ! i * generated_window ext u B (replicate (nat F) 0) ! i)"
proof -
  let ?a = "generated_window ext t B (replicate (nat F) 0)"
  let ?b = "generated_window ext u B (replicate (nat F) 0)"
  have la: "length ?a = nat F" and lb: "length ?b = nat F"
    using assms by (auto simp: generated_window_def)
  have za: "drop (nat B) ?a = replicate (nat F - nat B) 0"
    using assms by (auto simp: generated_window_def)
  have "inner_product ?a ?b = inner_product (take (nat B) ?a @ drop (nat B) ?a) (take (nat B) ?b @ drop (nat B) ?b)"
    by simp
  also have "\<dots> = inner_product (take (nat B) ?a) (take (nat B) ?b) + inner_product (drop (nat B) ?a) (drop (nat B) ?b)"
    by (rule inner_product_append) (simp add: la lb)
  also have "\<dots> = inner_product (take (nat B) ?a) (take (nat B) ?b)"
    by (simp add: za inner_product_zero)
  also have "\<dots> = (\<Sum>i<nat B. ?a ! i * ?b ! i)"
  proof -
    have "min (nat F) (nat B) = nat B" using assms by linarith
    then show ?thesis by (simp add: inner_product_nth la lb)
  qed
  finally show ?thesis .
qed

lemma length_window_of: "length (window_of ext t n) = nat n"
  by (simp add: window_of_def generated_window_def)

subsection \<open>Reachable states\<close>

lemma reachable_inv:
  assumes "reachable ext cfg s"
  shows "stft_inv s \<and> fft_size s = cfg_fft_size cfg \<and> block_size s = cfg_fft_size cfg \<and>
         overlap_factor s = cfg_overlap_factor cfg \<and>
         hop s = cfg_fft_size cfg div cfg_overlap_factor cfg \<and>
         input_latency s = cfg_fft_size cfg - cfg_fft_size cfg div cfg_overlap_factor cfg"
  using assms
proof (induction rule: reachable.induct)
  case (reach_init sample_rate s)
  have "s = initial_state ext cfg sample_rate"
    using stft_p_init_with_exact [OF reach_init(1), of ext sample_rate] reach_init(2) by simp
  then show ?case
    using stft_inv_initial_state [OF reach_init(1), of ext sample_rate]
    by (simp add: initial_state_def Let_def)
next
  case (reach_run s n inp out enable s' out')
  then show ?case
    using stft_p_run_preserves [of ext s n inp out enable s' out'] by simp
next
  case (reach_reset s s')
  then show ?case
    using stft_p_reset_preserves [of s] by auto
qed

lemma reachable_by_run_reachable: "reachable_by_run ext cfg s \<Longrightarrow> reachable ext cfg s"
  by (induction rule: reachable_by_run.induct) (auto intro: reachable.intros)

lemma reachable_by_run_windows:
  assumes "reachable_by_run ext cfg s"
  shows "input_window s = window_of ext (cfg_input_window_type cfg) (cfg_fft_size cfg) \<and>
         output_window s = window_of ext (cfg_output_window_type cfg) (cfg_fft_size cfg) \<and>
         fft_size s = cfg_fft_size cfg \<and> stft_inv s"
  using assms
proof (induction rule: reachable_by_run.induct)
  case (run_init sample_rate s)
  have "s = initial_state ext cfg sample_rate"
    using stft_p_init_with_exact [OF run_init(1), of ext sample_rate] run_init(2) by simp
  then show ?case
    using stft_inv_initial_state [OF run_init(1), of ext sample_rate]
    by (simp add: initial_state_def Let_def window_of_def)
next
  case (run_run s n inp out enable s' out')
  then show ?case
    using stft_p_run_preserves [of ext s n inp out enable s' out'] by simp
qed

lemma valid_default_config: "valid_config default_config"
  by (simp add: valid_config_def default_config_def)

lemma reachable_stft_p_init: "stft_p_init ext sample_rate = Some s \<Longrightarrow> reachable ext default_config s"
  unfolding stft_p_init_def by (rule reach_init [OF valid_default_config])

lemma stft_p_init_latency:
  assumes "stft_p_init ext sample_rate = Some s"
  shows "hop s = 512 \<and> stft_p_get_latency s = 1536 \<and> read_position s = 1536"
proof -
  have "s = initial_state ext default_config sample_rate"
    using stft_p_init_with_exact [OF valid_default_config, of ext sample_rate] assms
    by (simp add: stft_p_init_def)
  then show ?thesis
    by (simp add: initial_state_def Let_def default_config_def stft_p_get_latency_def)
qed

subsection \<open>The enable flag and the bookkeeping\<close>

















subsection \<open>The spectral stage inside a cycle\<close>



lemma stft_p_run_sample_pushed:
  assumes "stft_p_run_sample ext e inp k (s, out) = Some (s', out')"
  shows "if block_size s \<le> read_position s + 1
         then stft_p_cycle ext e (pushed s (inp ! nat k)) = Some s'
         else s' = pushed s (inp ! nat k)"
  using assms
  by (auto simp: stft_p_run_sample_def array_get_def array_set_def pushed_def Let_def
           split: bind_splits if_splits)


subsection \<open>The window setup during the lifetime of the object\<close>

lemma stft_p_analysis_setup:
  assumes "stft_p_analysis ext s = Some s'"
  shows "fft_size s' = fft_size s \<and> block_size s' = block_size s \<and>
         overlap_factor s' = overlap_factor s \<and> overlap_scale_factor s' = overlap_scale_factor s \<and>
         input_window s' = input_window s \<and> output_window s' = output_window s"
  using assms
  by (auto simp: stft_p_analysis_def stft_p_zeropad_def fftwf_execute_forward_def Let_def
           split: bind_splits if_splits)

lemma stft_p_synthesis_setup:
  assumes "stft_p_synthesis ext s = Some s'"
  shows "fft_size s' = fft_size s \<and> block_size s' = block_size s \<and>
         overlap_factor s' = overlap_factor s \<and> overlap_scale_factor s' = overlap_scale_factor s \<and>
         input_window s' = input_window s \<and> output_window s' = output_window s"
  using assms
  by (auto simp: stft_p_synthesis_def fftwf_execute_backward_def Let_def
           split: bind_splits if_splits)

lemma stft_p_cycle_setup:
  assumes "stft_p_cycle ext e s = Some s'"
  shows "fft_size s' = fft_size s \<and> block_size s' = block_size s \<and>
         overlap_factor s' = overlap_factor s \<and> overlap_scale_factor s' = overlap_scale_factor s \<and>
         input_window s' = input_window s \<and> output_window s' = output_window s"
proof -
  obtain buf a where a: "stft_p_analysis ext (s\<lparr>input_fft_buffer := buf, read_position := input_latency s\<rparr>) = Some a"
    and c: "stft_p_synthesis ext (processed ext e a) = Some s'"
    using assms by (auto simp: stft_p_cycle_def stft_p_processing_exact split: bind_splits)
  show ?thesis
    using stft_p_analysis_setup [OF a] stft_p_synthesis_setup [OF c] by (simp add: processed_def)
qed

lemma stft_p_run_setup:
  assumes "stft_p_run ext s n inp out e = Some (s', out')"
  shows "fft_size s' = fft_size s \<and> block_size s' = block_size s \<and>
         overlap_factor s' = overlap_factor s \<and> overlap_scale_factor s' = overlap_scale_factor s \<and>
         input_window s' = input_window s \<and> output_window s' = output_window s"
proof -
  let ?P = "\<lambda>st. fft_size (fst st) = fft_size s \<and> block_size (fst st) = block_size s \<and>
         overlap_factor (fst st) = overlap_factor s \<and> overlap_scale_factor (fst st) = overlap_scale_factor s \<and>
         input_window (fst st) = input_window s \<and> output_window (fst st) = output_window s"
  have "?P (s', out')"
  proof (rule for_each_preserves [where P = ?P, OF assms [unfolded stft_p_run_def for_upto_def]])
    show "?P (s, out)" by simp
  next
    fix k t t'
    assume P: "?P t" and b: "stft_p_run_sample ext e inp k t = Some t'"
    obtain u ou where t: "t = (u, ou)" by (cases t)
    obtain u' ou' where t': "t' = (u', ou')" by (cases t')
    note p = stft_p_run_sample_pushed [OF b [unfolded t t']]
    show "?P t'"
    proof (cases "block_size u \<le> read_position u + 1")
      case True
      then have "stft_p_cycle ext e (pushed u (inp ! nat k)) = Some u'" using p by simp
      from stft_p_cycle_setup [OF this] P show ?thesis by (simp add: t t')
    next
      case False
      then have "u' = pushed u (inp ! nat k)" using p by simp
      then show ?thesis using P by (simp add: t t')
    qed
  qed
  then show ?thesis by simp
qed

lemma stft_p_reset_setup:
  assumes "stft_p_reset s = Some s'" "0 \<le> fft_size s"
    and "length (input_window s) = nat (fft_size s)" "length (output_window s) = nat (fft_size s)"
  shows "fft_size s' = fft_size s \<and> block_size s' = block_size s \<and>
         overlap_factor s' = overlap_factor s \<and> overlap_scale_factor s' = overlap_scale_factor s \<and>
         input_window s' = replicate (nat (fft_size s)) 0 \<and>
         output_window s' = replicate (nat (fft_size s)) 0"
proof -
  have w: "initialize_array (input_window s) 0 (fft_size s) = Some (replicate (nat (fft_size s)) 0)"
    "initialize_array (output_window s) 0 (fft_size s) = Some (replicate (nat (fft_size s)) 0)"
    using assms(2-) by (simp_all add: initialize_array_exact)
  show ?thesis
    using assms(1) unfolding stft_p_reset_def w
    by (auto split: bind_splits)
qed

lemma length_generated_window:
  "0 \<le> n \<Longrightarrow> nat n \<le> length w \<Longrightarrow> length (generated_window ext t n w) = length w"
  by (simp add: generated_window_def)

subsection \<open>Call boundaries\<close>

lemma array_get_drop: "0 \<le> k \<Longrightarrow> array_get (drop m a) k = array_get a (int m + k)"
  by (auto simp: array_get_def nat_add_distrib) 

lemma array_set_drop:
  "0 \<le> k \<Longrightarrow> array_set (drop m a) k v = map_option (drop m) (array_set a (int m + k) v)"
  by (auto simp: array_set_def nat_add_distrib drop_update_swap)

lemma array_set_take:
  "0 \<le> k \<Longrightarrow> array_set a (int m + k) v = Some b \<Longrightarrow> take m b = take m a \<and> m \<le> length b"
  by (auto simp: array_set_def nat_add_distrib split: if_splits)

lemma stft_p_run_sample_drop:
  assumes "0 \<le> k"
  shows "stft_p_run_sample ext e (drop m inp) k (s, drop m out) =
           map_option (\<lambda>r. (fst r, drop m (snd r))) (stft_p_run_sample ext e inp (int m + k) (s, out))"
  unfolding stft_p_run_sample_def
  by (cases "array_get inp (int m + k)";
      cases "array_set (in_fifo s) (read_position s) (the (array_get inp (int m + k)))";
      cases "array_get (out_fifo s) (read_position s - input_latency s)";
      cases "array_set out (int m + k) (the (array_get (out_fifo s) (read_position s - input_latency s)))";
      cases "stft_p_cycle ext e (s\<lparr>in_fifo := the (array_set (in_fifo s) (read_position s) (the (array_get inp (int m + k)))), read_position := read_position s + 1\<rparr>)")
     (simp_all add: array_get_drop [OF assms] array_set_drop [OF assms] Let_def)

lemma stft_p_run_sample_take:
  assumes "0 \<le> k" "stft_p_run_sample ext e inp (int m + k) (s, out) = Some (s', out')"
  shows "take m out' = take m out \<and> m \<le> length out'"
proof -
  obtain y where "array_set out (int m + k) y = Some out'"
    using assms(2) unfolding stft_p_run_sample_def
    by (auto simp: Let_def split: bind_splits if_splits)
  then show ?thesis by (rule array_set_take [OF assms(1)])
qed

lemma for_each_drop:
  assumes "take m out = o0" "m \<le> length out \<or> ks = []"
  shows "for_each (map int ks) (stft_p_run_sample ext e (drop m inp)) (s, drop m out) =
           map_option (\<lambda>r. (fst r, drop m (snd r)))
             (for_each (map (\<lambda>k. int m + int k) ks) (stft_p_run_sample ext e inp) (s, out)) \<and>
         (\<forall>r. for_each (map (\<lambda>k. int m + int k) ks) (stft_p_run_sample ext e inp) (s, out) = Some r
              \<longrightarrow> take m (snd r) = o0)"
  using assms
proof (induction ks arbitrary: s out)
  case Nil
  then show ?case by simp
next
  case (Cons k ks)
  show ?case
  proof (cases "stft_p_run_sample ext e inp (int m + int k) (s, out)")
    case None
    then show ?thesis
      using stft_p_run_sample_drop [of "int k" ext e m inp s out] by simp
  next
    case (Some r)
    obtain s' out' where r: "r = (s', out')" by (cases r)
    have t: "take m out' = take m out" "m \<le> length out'"
      using stft_p_run_sample_take [of "int k" ext e inp m s out s' out'] Some r by simp_all
    have IH: "for_each (map int ks) (stft_p_run_sample ext e (drop m inp)) (s', drop m out') =
           map_option (\<lambda>r. (fst r, drop m (snd r)))
             (for_each (map (\<lambda>k. int m + int k) ks) (stft_p_run_sample ext e inp) (s', out')) \<and>
         (\<forall>r. for_each (map (\<lambda>k. int m + int k) ks) (stft_p_run_sample ext e inp) (s', out') = Some r
              \<longrightarrow> take m (snd r) = o0)"
      by (rule Cons.IH) (use t Cons.prems in auto)
    show ?thesis
      using stft_p_run_sample_drop [of "int k" ext e m inp s out] Some r IH by simp
  qed
qed

lemma stft_p_run_sample_bound:
  assumes "stft_p_run_sample ext e inp k (s, out) = Some (s', out')"
  shows "k < int (length out')"
proof -
  obtain y where "array_set out k y = Some out'"
    using assms unfolding stft_p_run_sample_def
    by (auto simp: Let_def split: bind_splits if_splits)
  then show ?thesis by (auto simp: array_set_def split: if_splits)
qed

lemma stft_p_run_bound:
  "stft_p_run ext s (int m) inp out e = Some (s', out') \<Longrightarrow> m \<le> length out'"
proof (induction m arbitrary: s' out')
  case 0
  then show ?case by simp
next
  case (Suc m)
  from Suc.prems obtain r where r: "stft_p_run ext s (int m) inp out e = Some r"
    "stft_p_run_sample ext e inp (int m) r = Some (s', out')"
    unfolding stft_p_run_def for_upto_Suc by (auto split: option.splits)
  show ?case
    using stft_p_run_sample_bound [of ext e inp "int m" "fst r" "snd r" s' out'] r(2) by simp
qed

lemma map_int_upt_shift: "map int [m..<m + n] = map (\<lambda>k. int m + int k) [0..<n]"
  by (induction n) simp_all

lemma stft_p_run_split:
  "stft_p_run ext s (int (m + n)) inp out e =
     (case stft_p_run ext s (int m) inp out e of None \<Rightarrow> None
      | Some (s1, out1) \<Rightarrow>
         (case stft_p_run ext s1 (int n) (drop m inp) (drop m out1) e of None \<Rightarrow> None
          | Some (s2, out2) \<Rightarrow> Some (s2, take m out1 @ out2)))"
proof (cases "stft_p_run ext s (int m) inp out e")
  case None
  then show ?thesis
    unfolding stft_p_run_def for_upto_def nat_int upt_add_eq_append [OF le0] map_append for_each_append
    by simp
next
  case (Some r)
  obtain s1 out1 where r: "r = (s1, out1)" by (cases r)
  have len: "m \<le> length out1 \<or> [0..<n] = []"
    using stft_p_run_bound [of ext s m inp out e s1 out1] Some r by simp
  have d: "for_each (map int [0..<n]) (stft_p_run_sample ext e (drop m inp)) (s1, drop m out1) =
           map_option (\<lambda>r. (fst r, drop m (snd r)))
             (for_each (map (\<lambda>k. int m + int k) [0..<n]) (stft_p_run_sample ext e inp) (s1, out1))"
    and t: "\<forall>r. for_each (map (\<lambda>k. int m + int k) [0..<n]) (stft_p_run_sample ext e inp) (s1, out1) = Some r
              \<longrightarrow> take m (snd r) = take m out1"
    using for_each_drop [OF refl len, of ext e inp s1] by simp_all
  have full: "stft_p_run ext s (int (m + n)) inp out e =
                for_each (map (\<lambda>k. int m + int k) [0..<n]) (stft_p_run_sample ext e inp) (s1, out1)"
    using Some r
    unfolding stft_p_run_def for_upto_def nat_int upt_add_eq_append [OF le0] map_append for_each_append
      map_int_upt_shift
    by simp
  show ?thesis
  proof (cases "for_each (map (\<lambda>k. int m + int k) [0..<n]) (stft_p_run_sample ext e inp) (s1, out1)")
    case None
    then show ?thesis
      using Some r d full by (simp add: stft_p_run_def for_upto_def)
  next
    case (Some r2)
    obtain s2 out2 where r2: "r2 = (s2, out2)" by (cases r2)
    have "take m out2 = take m out1" using t Some r2 by simp
    then have "take m out1 @ drop m out2 = out2"
      by (metis append_take_drop_id)
    then show ?thesis
      using \<open>stft_p_run ext s (int m) inp out e = Some r\<close> r d full Some r2
      by (simp add: stft_p_run_def for_upto_def)
  qed
qed

lemma stft_p_run_blocks_single:
  "stft_p_run_blocks ext s ns inp out enable = stft_p_run ext s (int (sum_list ns)) inp out enable"
proof (induction ns arbitrary: s inp out)
  case Nil
  show ?case by (simp add: stft_p_run_def for_upto_def)
next
  case (Cons n ns)
  show ?case
    unfolding sum_list.Cons stft_p_run_split
    by (simp add: Cons.IH split: option.splits prod.splits)
qed

subsection \<open>The input FIFO and the output buffer during a call\<close>

lemma stepped_in_fifo:
  assumes "stft_inv s"
  shows "take (nat (read_position (stepped ext e s x))) (in_fifo (stepped ext e s x)) =
           drop (nat (read_position s) + 1 - nat (read_position (stepped ext e s x)))
             (take (nat (read_position s)) (in_fifo s) @ [x]) \<and>
         nat (read_position (stepped ext e s x)) \<le> nat (read_position s) + 1"
proof -
  have F: "0 < hop s" "hop s \<le> fft_size s" "block_size s = fft_size s"
    "input_latency s = fft_size s - hop s" "length (in_fifo s) = nat (fft_size s)"
    "input_latency s \<le> read_position s" "read_position s < block_size s"
    using assms by (auto simp: stft_inv_def stft_shape_def)
  let ?r = "nat (read_position s)"
  have r: "?r < length (in_fifo s)" "0 \<le> read_position s" using F by linarith+
  have push: "take (Suc ?r) ((in_fifo s)[?r := x]) = take ?r (in_fifo s) @ [x]"
    using r(1) by (simp add: take_Suc_conv_app_nth)
  show ?thesis
  proof (cases "read_position s + 1 \<ge> block_size s")
    case False
    have "nat (read_position s + 1) = Suc ?r" using r(2) by linarith
    then show ?thesis
      using False push by (simp add: stepped_def)
  next
    case True
    then have full: "Suc ?r = length (in_fifo s)" using F by linarith
    let ?f = "(in_fifo s)[?r := x]"
    have f: "?f = take ?r (in_fifo s) @ [x]"
      using push full by simp
    have n: "nat (input_latency s) = length ?f - nat (hop s)" "nat (hop s) \<le> length ?f"
      "?r + 1 - nat (input_latency s) = nat (hop s)"
      using F full by simp_all
    have st: "stepped ext e s x = cycled ext e (pushed s x)"
      using True by (simp add: stepped_def)
    have c: "take (nat (input_latency s)) (in_fifo (cycled ext e (pushed s x))) = drop (nat (hop s)) ?f"
      unfolding cycled_in_fifo using n(1,2) by simp
    have le: "nat (input_latency s) \<le> ?r + 1"
      using F r by linarith
    show ?thesis
      unfolding st cycled_read_position pushed_fields c n(3) f [symmetric]
      using le by simp
  qed
qed

lemma drop_snoc: "d \<le> length X \<Longrightarrow> drop d (X @ [x]) = drop d X @ [x]"
  by simp

lemma stft_p_run_trace:
  assumes "stft_inv s" "m \<le> length inp" "m \<le> length out"
  shows "\<exists>s' out'. stft_p_run ext s (int m) inp out e = Some (s', out') \<and> stft_inv s' \<and>
           length out' = length out \<and> drop m out' = drop m out \<and>
           (\<forall>k<m. \<exists>sk ok. stft_p_run ext s (int k) inp out e = Some (sk, ok) \<and>
                     out' ! k = out_fifo sk ! nat (read_position sk - input_latency sk)) \<and>
           nat (read_position s') \<le> nat (read_position s) + m \<and>
           take (nat (read_position s')) (in_fifo s') =
             drop (nat (read_position s) + m - nat (read_position s'))
               (take (nat (read_position s)) (in_fifo s) @ take m inp)"
  using assms(2,3)
proof (induction m)
  case 0
  have "stft_p_run ext s (int 0) inp out e = Some (s, out)"
    by (simp add: stft_p_run_def for_upto_def)
  then show ?case using assms(1) by simp
next
  case (Suc m)
  let ?r = "nat (read_position s)"
  let ?A = "take ?r (in_fifo s)"
  obtain sm om where IH: "stft_p_run ext s (int m) inp out e = Some (sm, om)" "stft_inv sm"
    "length om = length out" "drop m om = drop m out"
    "\<forall>k<m. \<exists>sk ok. stft_p_run ext s (int k) inp out e = Some (sk, ok) \<and>
                     om ! k = out_fifo sk ! nat (read_position sk - input_latency sk)"
    "nat (read_position sm) \<le> ?r + m"
    "take (nat (read_position sm)) (in_fifo sm) = drop (?r + m - nat (read_position sm)) (?A @ take m inp)"
    using Suc.IH Suc.prems by auto
  let ?s' = "stepped ext e sm (inp ! m)"
  let ?o' = "om[m := out_fifo sm ! nat (read_position sm - input_latency sm)]"
  have b: "stft_shape sm" "input_latency sm \<le> read_position sm" "read_position sm < block_size sm"
    using IH(2) by (simp_all add: stft_inv_def)
  have body: "stft_p_run_sample ext e inp (int m) (sm, om) = Some (?s', ?o')"
    using stft_p_run_sample_exact [OF b, of "int m" inp om ext e] Suc.prems IH(3) by simp
  have run: "stft_p_run ext s (int (Suc m)) inp out e = Some (?s', ?o')"
    unfolding stft_p_run_def for_upto_Suc
    using IH(1) body by (simp add: stft_p_run_def)
  have inv: "stft_inv ?s'" by (rule stft_inv_stepped [OF IH(2)])
  have len: "length ?o' = length out" using IH(3) by simp
  have dr: "drop (Suc m) ?o' = drop (Suc m) out"
  proof -
    have "drop (Suc m) ?o' = drop (Suc m) om" by simp
    also have "\<dots> = drop 1 (drop m om)" by simp
    also have "\<dots> = drop (Suc m) out" unfolding IH(4) by simp
    finally show ?thesis .
  qed
  have popped: "\<exists>sk ok. stft_p_run ext s (int k) inp out e = Some (sk, ok) \<and>
                     ?o' ! k = out_fifo sk ! nat (read_position sk - input_latency sk)"
    if "k < Suc m" for k
  proof (cases "k = m")
    case True
    then show ?thesis using IH(1,3) Suc.prems by simp
  next
    case False
    then have "k < m" using that by simp
    then show ?thesis using IH(5) False by simp
  qed
  note st = stepped_in_fifo [OF IH(2), of ext e "inp ! m"]
  let ?rm = "nat (read_position sm)" and ?r' = "nat (read_position ?s')"
  have le: "?r' \<le> ?r + Suc m" using st IH(6) by linarith
  have lenA: "length ?A = ?r"
    using assms(1) by (auto simp: stft_inv_def stft_shape_def)
  have d1: "?r + m - ?rm \<le> length (?A @ take m inp)"
    using lenA Suc.prems by simp
  have "take ?r' (in_fifo ?s') = drop (?rm + 1 - ?r') (drop (?r + m - ?rm) (?A @ take m inp) @ [inp ! m])"
    using st IH(7) by simp
  also have "\<dots> = drop (?rm + 1 - ?r') (drop (?r + m - ?rm) ((?A @ take m inp) @ [inp ! m]))"
    by (simp only: drop_snoc [OF d1])
  also have "\<dots> = drop (?r + Suc m - ?r') ((?A @ take m inp) @ [inp ! m])"
  proof -
    have "?rm + 1 - ?r' + (?r + m - ?rm) = ?r + Suc m - ?r'"
      using st IH(6) by linarith
    then show ?thesis by (simp only: drop_drop)
  qed
  also have "(?A @ take m inp) @ [inp ! m] = ?A @ take (Suc m) inp"
    using Suc.prems by (simp add: take_Suc_conv_app_nth)
  finally have fifo: "take ?r' (in_fifo ?s') = drop (?r + Suc m - ?r') (?A @ take (Suc m) inp)" .
  show ?case
    using run inv len dr popped le fifo by blast
qed

lemma stft_p_run_next:
  assumes "stft_p_run ext s (int k) inp out e = Some (sk, ok)" "stft_inv s"
    and "k < length inp" "k < length out"
  shows "stft_p_run ext s (int (Suc k)) inp out e =
           Some (stepped ext e sk (inp ! k), ok[k := out_fifo sk ! nat (read_position sk - input_latency sk)])"
proof -
  have p: "stft_inv sk" "length ok = length out"
    using stft_p_run_preserves [OF assms(1,2)] by simp_all
  then have b: "stft_shape sk" "input_latency sk \<le> read_position sk" "read_position sk < block_size sk"
    by (simp_all add: stft_inv_def)
  have c: "0 \<le> int k" "int k < int (length inp)" "int k < int (length ok)"
    using assms(3,4) p(2) by simp_all
  show ?thesis
    unfolding stft_p_run_def for_upto_Suc
    using assms(1) [unfolded stft_p_run_def] stft_p_run_sample_exact [OF b c, of ext e]
    by simp
qed

subsection \<open>Overlap-add\<close>

lemma cycle_frame_identity:
  assumes "stft_shape s" "identity_stage ext e" "fftw_round_trip ext (nat (fft_size s))" "k < nat (fft_size s)"
  shows "cycle_frame ext e s ! k = in_fifo s ! k * window_product s k / ola_gain s"
proof -
  let ?N = "nat (fft_size s)"
  let ?s1 = "s\<lparr>input_fft_buffer := in_fifo s, read_position := input_latency s\<rparr>"
  let ?w = "windowed_frame ?s1"
  let ?S = "map (fftw_r2hc ext ?w) [0..<?N]"
  have F: "0 < fft_size s" "length (in_fifo s) = ?N"
    using assms(1) by (auto simp: stft_shape_def)
  have lw: "length ?w = ?N" by (simp add: windowed_frame_def)
  have wk: "?w ! k = in_fifo s ! k * input_window s ! k"
    using assms(4) by (simp add: windowed_frame_def)
  have a: "output_fft_buffer (analysed ext ?s1) = ?S" "fft_processor (analysed ext ?s1) = fft_processor s"
    by (simp_all add: analysed_def)
  have "map (snd (fft_p_run ext (fft_processor s) ?S e)) [0..<length ?S] = ?S"
    using assms(2) by (auto simp: identity_stage_def list_eq_iff_nth_eq)
  then have p: "output_fft_buffer (processed ext e (analysed ext ?s1)) = ?S"
    by (simp add: processed_def a)
  have q: "fft_size (processed ext e (analysed ext ?s1)) = fft_size s"
    "output_window (processed ext e (analysed ext ?s1)) = output_window s"
    "overlap_scale_factor (processed ext e (analysed ext ?s1)) = overlap_scale_factor s"
    "overlap_factor (processed ext e (analysed ext ?s1)) = overlap_factor s"
    by (simp_all add: processed_def analysed_def)
  have rt: "fftw_hc2r ext ?S k = real ?N * ?w ! k"
    using assms(3,4) lw by (simp add: fftw_round_trip_def)
  have N: "real_of_int (fft_size s) = real ?N" "real ?N \<noteq> 0"
    using F by simp_all
  have "cycle_frame ext e s ! k =
          (output_window s ! k * (fftw_hc2r ext ?S k / real_of_int (fft_size s))) / ola_gain s"
    using assms(4) by (simp add: cycle_frame_def synthesis_frame_def p q ola_gain_def)
  also have "\<dots> = (output_window s ! k * ?w ! k) / ola_gain s"
    unfolding rt N(1) using N(2) by simp
  finally show ?thesis
    by (simp add: wk window_product_def mult.commute mult.left_commute)
qed

lemma ola_sum_step: "0 < h \<Longrightarrow> i < N \<Longrightarrow> ola_sum N h p i = p i + ola_sum N h p (i + h)"
  by (subst ola_sum.simps) simp

lemma ola_sum_beyond: "N \<le> i \<Longrightarrow> ola_sum N h p i = 0"
  by (subst ola_sum.simps) simp

lemma ola_inv_pushed:
  assumes inv: "stft_inv s" and oi: "ola_inv inp m s out"
    and m: "m < length inp" "m < length out"
    and nc: "\<not> read_position s + 1 \<ge> block_size s"
  shows "ola_inv inp (Suc m) (pushed s (inp ! m)) (out[m := out_fifo s ! nat (read_position s - input_latency s)])"
proof -
  obtain r where r: "r < nat (hop s)" "read_position s = input_latency s + int r"
    and I3: "\<forall>k<nat (read_position s). in_fifo s ! k = stream inp (int m - read_position s + int k)"
    and I4: "\<forall>k<nat (hop s). out_fifo s ! k = stream inp (int m - int r - fft_size s + int k)"
    and I5: "\<forall>k<nat (fft_size s).
           output_accum s ! k =
             stream inp (int m - int r - fft_size s + hop s + int k)
             * ola_sum (nat (fft_size s)) (nat (hop s)) (window_product s) (k + nat (hop s)) / ola_gain s"
    and I6: "\<forall>j<m. out ! j = stream inp (int j - fft_size s)"
    using oi unfolding ola_inv_def by blast
  have F: "0 < hop s" "hop s \<le> fft_size s" "block_size s = fft_size s"
    "input_latency s = fft_size s - hop s" "length (in_fifo s) = nat (fft_size s)"
    "input_latency s \<le> read_position s" "read_position s < block_size s"
    using inv by (auto simp: stft_inv_def stft_shape_def)
  have xm: "stream inp (int m) = inp ! m" using m by (simp add: stream_def)
  have rr: "nat (read_position s - input_latency s) = r" using r(2) by simp
  have r1: "Suc r < nat (hop s)" using nc r F by linarith
  have rp: "0 \<le> read_position s" "nat (read_position s + 1) = Suc (nat (read_position s))"
    "nat (read_position s) < length (in_fifo s)"
    using F by linarith+
  have J3: "(in_fifo s)[nat (read_position s) := inp ! m] ! k
              = stream inp (int (Suc m) - (read_position s + 1) + int k)"
    if k: "k < Suc (nat (read_position s))" for k
  proof (cases "k = nat (read_position s)")
    case True
    have "int (Suc m) - (read_position s + 1) + int k = int m" using True rp(1) by simp
    then show ?thesis using True rp(3) xm by simp
  next
    case False
    then have "k < nat (read_position s)" using k by simp
    moreover have "int (Suc m) - (read_position s + 1) + int k = int m - read_position s + int k" by simp
    ultimately show ?thesis using I3 False by simp
  qed
  have J4: "out_fifo s ! k = stream inp (int (Suc m) - int (Suc r) - fft_size s + int k)"
    if "k < nat (hop s)" for k
  proof -
    have "int (Suc m) - int (Suc r) - fft_size s + int k = int m - int r - fft_size s + int k" by simp
    then show ?thesis using I4 that by simp
  qed
  have J5: "output_accum s ! k =
             stream inp (int (Suc m) - int (Suc r) - fft_size s + hop s + int k)
             * ola_sum (nat (fft_size s)) (nat (hop s)) (window_product s) (k + nat (hop s)) / ola_gain s"
    if "k < nat (fft_size s)" for k
  proof -
    have "int (Suc m) - int (Suc r) - fft_size s + hop s + int k = int m - int r - fft_size s + hop s + int k"
      by simp
    then show ?thesis using I5 that by simp
  qed
  have J6: "out[m := out_fifo s ! nat (read_position s - input_latency s)] ! j = stream inp (int j - fft_size s)"
    if j: "j < Suc m" for j
  proof (cases "j = m")
    case True
    have "out_fifo s ! r = stream inp (int m - int r - fft_size s + int r)" using I4 r(1) by blast
    then show ?thesis using True m(2) rr by simp
  next
    case False
    then show ?thesis using I6 j by simp
  qed
  have wp: "window_product (pushed s (inp ! m)) = window_product s"
    "ola_gain (pushed s (inp ! m)) = ola_gain s"
    by (simp_all add: window_product_def ola_gain_def fun_eq_iff)
  have "read_position (pushed s (inp ! m)) = input_latency (pushed s (inp ! m)) + int (Suc r)"
    using r(2) by simp
  then show ?thesis
    unfolding ola_inv_def wp pushed_fields rp(2)
    using r1 J3 J4 J5 J6 by blast
qed

lemma ola_inv_cycled:
  assumes inv: "stft_inv s" and oi: "ola_inv inp m s out"
    and m: "m < length inp" "m < length out"
    and cy: "read_position s + 1 \<ge> block_size s"
    and id: "identity_stage ext e" and rt: "fftw_round_trip ext (nat (fft_size s))" and co: "cola s"
  shows "ola_inv inp (Suc m) (cycled ext e (pushed s (inp ! m)))
           (out[m := out_fifo s ! nat (read_position s - input_latency s)])"
proof -
  obtain r where r: "r < nat (hop s)" "read_position s = input_latency s + int r"
    and I3: "\<forall>k<nat (read_position s). in_fifo s ! k = stream inp (int m - read_position s + int k)"
    and I4: "\<forall>k<nat (hop s). out_fifo s ! k = stream inp (int m - int r - fft_size s + int k)"
    and I5: "\<forall>k<nat (fft_size s).
           output_accum s ! k =
             stream inp (int m - int r - fft_size s + hop s + int k)
             * ola_sum (nat (fft_size s)) (nat (hop s)) (window_product s) (k + nat (hop s)) / ola_gain s"
    and I6: "\<forall>j<m. out ! j = stream inp (int j - fft_size s)"
    using oi unfolding ola_inv_def by blast
  let ?N = "nat (fft_size s)" and ?H = "nat (hop s)" and ?L = "nat (input_latency s)"
  let ?s1 = "pushed s (inp ! m)"
  let ?S = "ola_sum ?N ?H (window_product s)"
  let ?c = "ola_gain s"
  let ?X = "\<lambda>k. stream inp (int (Suc m) - fft_size s + int k)"
  have F: "0 < hop s" "hop s \<le> fft_size s" "block_size s = fft_size s"
    "input_latency s = fft_size s - hop s" "length (in_fifo s) = ?N"
    "input_latency s \<le> read_position s" "read_position s < block_size s"
    "length (out_fifo s) = ?N" "length (output_accum s) = nat (block_size s * 2)"
    using inv by (auto simp: stft_inv_def stft_shape_def)
  have tail: "\<forall>i. ?N \<le> i \<and> i < ?N + ?N \<longrightarrow> output_accum s ! i = 0"
  proof -
    have "nat (block_size s * 2) = ?N + ?N" using F by simp
    then show ?thesis using inv F(3) by (simp add: stft_inv_def)
  qed
  have sh1: "stft_shape ?s1" using inv by (simp add: stft_inv_def stft_shape_pushed)
  have N: "0 < ?H" "?H \<le> ?N" "?L + ?H = ?N" "?L = ?N - ?H" "nat (block_size s) = ?N"
    "nat (block_size s * 2) = ?N + ?N"
    using F by simp_all
  have full: "read_position s + 1 = fft_size s" using cy F by simp
  then have rh: "int r + 1 = hop s" "Suc r = ?H" using r(2) F(4) by simp_all
  have rpn: "nat (read_position s) < ?N" "Suc (nat (read_position s)) = ?N" "0 \<le> read_position s"
    using full F by simp_all
  have xm: "stream inp (int m) = inp ! m" using m by (simp add: stream_def)
  have rr: "nat (read_position s - input_latency s) = r" using r(2) by simp
  have wp: "window_product ?s1 = window_product s" "ola_gain ?s1 = ola_gain s"
    by (simp_all add: window_product_def ola_gain_def fun_eq_iff)
  have wc: "window_product (cycled ext e ?s1) = window_product s" "ola_gain (cycled ext e ?s1) = ola_gain s"
    by (simp_all add: window_product_def ola_gain_def fun_eq_iff)
  have c0: "?c \<noteq> 0" and cola: "\<forall>k<?H. ?S k = ?c"
    using co by (simp_all add: cola_def)
  \<comment> \<open>the frame that is analysed\<close>
  have frame: "in_fifo ?s1 ! k = ?X k" if k: "k < ?N" for k
  proof (cases "k = nat (read_position s)")
    case True
    have pos: "int (Suc m) - fft_size s + int k = int m" using True full rpn(3) by linarith
    have "in_fifo ?s1 ! k = inp ! m" using True rpn(1) F(5) by simp
    then show ?thesis unfolding pos xm .
  next
    case False
    then have kk: "k < nat (read_position s)" using k rpn(2) by linarith
    have pos: "int (Suc m) - fft_size s + int k = int m - read_position s + int k" using full by linarith
    have "in_fifo ?s1 ! k = in_fifo s ! k" using False by simp
    also have "\<dots> = stream inp (int m - read_position s + int k)" using I3 kk by blast
    finally show ?thesis unfolding pos .
  qed
  have y: "cycle_frame ext e ?s1 ! k = ?X k * window_product s k / ?c" if k: "k < ?N" for k
    using cycle_frame_identity [OF sh1 id, of k] rt k frame [OF k] by (simp add: wp)
  \<comment> \<open>the accumulator after the addition\<close>
  let ?A = "overlap_added ?s1 (cycle_frame ext e ?s1)"
  have lenA: "length ?A = ?N + ?N"
    using length_overlap_added [OF sh1, of "cycle_frame ext e ?s1"] N by simp
  have A_low: "?A ! k = ?X k * ?S k / ?c" if k: "k < ?N" for k
  proof -
    have "?A ! k = output_accum s ! k + cycle_frame ext e ?s1 ! k"
      using k by (simp add: overlap_added_def nth_append N(5) F(3))
    also have "output_accum s ! k = ?X k * ?S (k + ?H) / ?c"
    proof -
      have pos: "int m - int r - fft_size s + hop s + int k = int (Suc m) - fft_size s + int k"
        using rh(1) by linarith
      have "output_accum s ! k
              = stream inp (int m - int r - fft_size s + hop s + int k) * ?S (k + ?H) / ?c"
        using I5 k by blast
      then show ?thesis unfolding pos .
    qed
    also have "?X k * ?S (k + ?H) / ?c + cycle_frame ext e ?s1 ! k
               = ?X k * (window_product s k + ?S (k + ?H)) / ?c"
      unfolding y [OF k] by (simp add: add_divide_distrib distrib_left)
    also have "window_product s k + ?S (k + ?H) = ?S k"
      using ola_sum_step [OF N(1) k, of "window_product s"] by simp
    finally show ?thesis .
  qed
  have A_high: "?A ! k = 0" if k: "?N \<le> k" "k < ?N + ?N" for k
  proof -
    have "?A ! k = output_accum s ! k"
      using overlap_added_tail [of ?s1 k "cycle_frame ext e ?s1"] k(1) by (simp add: F(9) N(5,6))
    then show ?thesis using tail k by simp
  qed
  \<comment> \<open>the four parts of the invariant after the cycle\<close>
  have J3: "in_fifo (cycled ext e ?s1) ! k = stream inp (int (Suc m) - input_latency s + int k)"
    if k: "k < ?L" for k
  proof -
    have len1: "length (in_fifo ?s1) = ?N" using F(5) by simp
    have "length (take ?L (drop ?H (in_fifo ?s1))) = ?L" using N(3) len1 by simp
    then have "in_fifo (cycled ext e ?s1) ! k = take ?L (drop ?H (in_fifo ?s1)) ! k"
      unfolding cycled_in_fifo pushed_fields using k by (simp only: nth_append if_True)
    also have "\<dots> = drop ?H (in_fifo ?s1) ! k" using k by simp
    also have "\<dots> = in_fifo ?s1 ! (?H + k)" using N(2) len1 by simp
    also have "\<dots> = ?X (?H + k)"
    proof -
      have "?H + k < ?N" using k N(3) by simp
      then show ?thesis by (rule frame)
    qed
    finally have a: "in_fifo (cycled ext e ?s1) ! k = ?X (?H + k)" .
    have "int (?H + k) = hop s + int k" using F(1) by simp
    then have pos: "int (Suc m) - fft_size s + int (?H + k) = int (Suc m) - input_latency s + int k"
      using F(4) by linarith
    show ?thesis using a unfolding pos .
  qed
  have J4: "out_fifo (cycled ext e ?s1) ! k = stream inp (int (Suc m) - int 0 - fft_size s + int k)"
    if k: "k < ?H" for k
  proof -
    have kN: "k < ?N" using k N(2) by (rule less_le_trans)
    have "length (take ?H ?A) = ?H" using N(2) lenA by simp
    then have "out_fifo (cycled ext e ?s1) ! k = take ?H ?A ! k"
      unfolding cycled_out_fifo pushed_fields using k by (simp only: nth_append if_True)
    also have "\<dots> = ?A ! k" using k by simp
    also have "\<dots> = ?X k * ?S k / ?c" by (rule A_low [OF kN])
    also have "\<dots> = ?X k" using cola k c0 by simp
    finally have a: "out_fifo (cycled ext e ?s1) ! k = ?X k" .
    have pos: "int (Suc m) - int 0 - fft_size s + int k = int (Suc m) - fft_size s + int k"
      by simp
    show ?thesis using a unfolding pos .
  qed
  have J5: "output_accum (cycled ext e ?s1) ! k =
              stream inp (int (Suc m) - int 0 - fft_size s + hop s + int k) * ?S (k + ?H) / ?c"
    if k: "k < ?N" for k
  proof -
    have "length (take ?N (drop ?H ?A)) = ?N" using N(2) lenA by simp
    then have "output_accum (cycled ext e ?s1) ! k = take ?N (drop ?H ?A) ! k"
      unfolding cycled_output_accum pushed_fields N(5) using k by (simp only: nth_append if_True)
    also have "\<dots> = drop ?H ?A ! k" using k by simp
    also have "\<dots> = ?A ! (?H + k)" using N(2) lenA by simp
    also have "\<dots> = ?X (?H + k) * ?S (?H + k) / ?c"
    proof (cases "?H + k < ?N")
      case True
      then show ?thesis by (rule A_low)
    next
      case False
      have "?H + k < ?N + ?N" using k N(2) by simp
      then have "?A ! (?H + k) = 0" using A_high [of "?H + k"] False by simp
      moreover have "?S (?H + k) = 0" using False by (simp add: ola_sum_beyond)
      ultimately show ?thesis by simp
    qed
    finally have a: "output_accum (cycled ext e ?s1) ! k = ?X (?H + k) * ?S (?H + k) / ?c" .
    have "int (?H + k) = hop s + int k" using F(1) by simp
    then have pos: "int (Suc m) - fft_size s + int (?H + k)
                      = int (Suc m) - int 0 - fft_size s + hop s + int k"
      by linarith
    show ?thesis using a unfolding pos by (simp only: add.commute [of ?H k])
  qed
  have J6: "out[m := out_fifo s ! nat (read_position s - input_latency s)] ! j = stream inp (int j - fft_size s)"
    if j: "j < Suc m" for j
  proof (cases "j = m")
    case True
    have "out_fifo s ! r = stream inp (int m - int r - fft_size s + int r)" using I4 r(1) by blast
    then show ?thesis using True m(2) rr by simp
  next
    case False
    then show ?thesis using I6 j by simp
  qed
  have "read_position (cycled ext e ?s1) = input_latency (cycled ext e ?s1) + int 0"
    by simp
  then show ?thesis
    unfolding ola_inv_def wc cycled_config cycled_read_position pushed_fields
    using N(1) J3 J4 J5 J6 by blast
qed

lemma stream_negative: "i < 0 \<Longrightarrow> stream inp i = 0"
  by (simp add: stream_def)

lemma ola_inv_initial_state:
  assumes "valid_config cfg"
  shows "ola_inv inp 0 (initial_state ext cfg sr) out"
proof -
  let ?s = "initial_state ext cfg sr"
  let ?F = "cfg_fft_size cfg"
  have inv: "stft_inv ?s" by (rule stft_inv_initial_state [OF assms])
  have f: "fft_size ?s = ?F" "read_position ?s = input_latency ?s"
    "in_fifo ?s = replicate (nat ?F) 0" "out_fifo ?s = replicate (nat ?F) 0"
    "output_accum ?s = replicate (nat (?F * 2)) 0"
    by (simp_all add: initial_state_def Let_def)
  have F: "0 < hop ?s" "hop ?s \<le> fft_size ?s" "input_latency ?s = fft_size ?s - hop ?s"
    using inv by (auto simp: stft_inv_def stft_shape_def)
  have a: "in_fifo ?s ! k = stream inp (int 0 - read_position ?s + int k)" if "k < nat (read_position ?s)" for k
  proof -
    have "int 0 - read_position ?s + int k < 0" using that by linarith
    moreover have "k < nat ?F" using that F f(1,2) by linarith
    ultimately show ?thesis by (simp add: stream_negative f(3))
  qed
  have b: "out_fifo ?s ! k = stream inp (int 0 - int 0 - fft_size ?s + int k)" if "k < nat (hop ?s)" for k
  proof -
    have "int 0 - int 0 - fft_size ?s + int k < 0" using that F by linarith
    moreover have "k < nat ?F" using that F f(1) by linarith
    ultimately show ?thesis by (simp add: stream_negative f(4))
  qed
  have c: "output_accum ?s ! k =
             stream inp (int 0 - int 0 - fft_size ?s + hop ?s + int k)
             * ola_sum (nat (fft_size ?s)) (nat (hop ?s)) (window_product ?s) (k + nat (hop ?s)) / ola_gain ?s"
    if k: "k < nat (fft_size ?s)" for k
  proof -
    have z: "output_accum ?s ! k = 0"
    proof -
      have "k < nat (?F * 2)" using k f(1) by linarith
      then show ?thesis by (simp add: f(5))
    qed
    show ?thesis
    proof (cases "k + nat (hop ?s) < nat (fft_size ?s)")
      case True
      then have "int 0 - int 0 - fft_size ?s + hop ?s + int k < 0" using F by linarith
      then show ?thesis by (simp add: stream_negative z)
    next
      case False
      then have "ola_sum (nat (fft_size ?s)) (nat (hop ?s)) (window_product ?s) (k + nat (hop ?s)) = 0"
        by (simp add: ola_sum_beyond)
      then show ?thesis by (simp add: z)
    qed
  qed
  have "0 < nat (hop ?s)" using F by simp
  moreover have "read_position ?s = input_latency ?s + int 0" using f(2) by simp
  ultimately show ?thesis
    unfolding ola_inv_def using a b c by blast
qed

lemma cola_stepped: "cola (stepped ext e s x) = cola s"
  by (simp add: cola_def ola_gain_def window_product_def [abs_def])

lemma stft_p_run_ola:
  assumes inv: "stft_inv s" and oi: "ola_inv inp 0 s out"
    and id: "identity_stage ext e" and rt: "fftw_round_trip ext (nat (fft_size s))" and co: "cola s"
    and m: "m \<le> length inp" "m \<le> length out"
  shows "\<exists>s' out'. stft_p_run ext s (int m) inp out e = Some (s', out') \<and> stft_inv s' \<and>
           length out' = length out \<and> fft_size s' = fft_size s \<and> cola s' \<and> ola_inv inp m s' out'"
  using m
proof (induction m)
  case 0
  have "stft_p_run ext s (int 0) inp out e = Some (s, out)"
    by (simp add: stft_p_run_def for_upto_def)
  then show ?case using inv oi co by simp
next
  case (Suc m)
  obtain sm om where IH: "stft_p_run ext s (int m) inp out e = Some (sm, om)" "stft_inv sm"
    "length om = length out" "fft_size sm = fft_size s" "cola sm" "ola_inv inp m sm om"
    using Suc.IH Suc.prems by auto
  let ?s' = "stepped ext e sm (inp ! m)"
  let ?o' = "om[m := out_fifo sm ! nat (read_position sm - input_latency sm)]"
  have b: "stft_shape sm" "input_latency sm \<le> read_position sm" "read_position sm < block_size sm"
    using IH(2) by (simp_all add: stft_inv_def)
  have ml: "m < length inp" "m < length om" using Suc.prems IH(3) by simp_all
  have body: "stft_p_run_sample ext e inp (int m) (sm, om) = Some (?s', ?o')"
    using stft_p_run_sample_exact [OF b, of "int m" inp om ext e] ml by simp
  have run: "stft_p_run ext s (int (Suc m)) inp out e = Some (?s', ?o')"
    unfolding stft_p_run_def for_upto_Suc
    using IH(1) body by (simp add: stft_p_run_def)
  have inv': "stft_inv ?s'" by (rule stft_inv_stepped [OF IH(2)])
  have rt': "fftw_round_trip ext (nat (fft_size sm))" using rt IH(4) by simp
  have oi': "ola_inv inp (Suc m) ?s' ?o'"
  proof (cases "read_position sm + 1 \<ge> block_size sm")
    case True
    then show ?thesis
      using ola_inv_cycled [OF IH(2,6) ml True id rt' IH(5)] by (simp add: stepped_def)
  next
    case False
    then show ?thesis
      using ola_inv_pushed [OF IH(2,6) ml False] by (simp add: stepped_def)
  qed
  have "length ?o' = length out" "fft_size ?s' = fft_size s" "cola ?s'"
    using IH(3,4,5) by (simp_all add: cola_stepped)
  then show ?case using run inv' oi' by blast
qed

text \<open>
  The whole pipeline in real arithmetic: with an identity stage, a transform pair with
  exact round trip and windows of constant overlap-add, every partition of the input
  into \<open>run()\<close> calls after initialisation succeeds, the first \<open>transform_size\<close>
  output samples are zero, and output sample \<open>j\<close> is input sample
  \<open>j - transform_size\<close> from there on. Rounding is not modelled.
\<close>

lemma overlap_add_reconstruction:
  assumes "valid_config cfg" "stft_p_init_with ext cfg sample_rate = Some s0"
    and "identity_stage ext enable" "fftw_round_trip ext (nat (cfg_fft_size cfg))" "cola s0"
    and "sum_list ns \<le> length inp" "sum_list ns \<le> length out"
  shows "\<exists>s' out'. stft_p_run_blocks ext s0 ns inp out enable = Some (s', out') \<and>
           (\<forall>j<sum_list ns. out' ! j =
              (if j < nat (cfg_fft_size cfg) then 0 else inp ! (j - nat (cfg_fft_size cfg))))"
proof -
  let ?F = "cfg_fft_size cfg"
  have s0: "s0 = initial_state ext cfg sample_rate"
    using stft_p_init_with_exact [OF assms(1), of ext sample_rate] assms(2) by simp
  have inv: "stft_inv s0" unfolding s0 by (rule stft_inv_initial_state [OF assms(1)])
  have oi: "ola_inv inp 0 s0 out" unfolding s0 by (rule ola_inv_initial_state [OF assms(1)])
  have F: "fft_size s0 = ?F" by (simp add: s0 initial_state_def Let_def)
  have rt: "fftw_round_trip ext (nat (fft_size s0))" using assms(4) F by simp
  obtain s' out' where r: "stft_p_run ext s0 (int (sum_list ns)) inp out enable = Some (s', out')"
    "fft_size s' = fft_size s0" "ola_inv inp (sum_list ns) s' out'"
    using stft_p_run_ola [OF inv oi assms(3) rt assms(5,6,7)] by blast
  have d: "out' ! j = (if j < nat ?F then 0 else inp ! (j - nat ?F))" if j: "j < sum_list ns" for j
  proof -
    have "out' ! j = stream inp (int j - ?F)"
      using r(2,3) j F by (simp add: ola_inv_def)
    moreover have "stream inp (int j - ?F) = 0" if "j < nat ?F"
      using that by (simp add: stream_negative)
    moreover have "stream inp (int j - ?F) = inp ! (j - nat ?F)" if n: "\<not> j < nat ?F"
    proof -
      have p: "0 \<le> ?F" using inv F by (auto simp: stft_inv_def stft_shape_def)
      have "0 \<le> int j - ?F" "int j - ?F < int (length inp)" "nat (int j - ?F) = j - nat ?F"
        using n j assms(6) p by linarith+
      then show ?thesis by (simp add: stream_def)
    qed
    ultimately show ?thesis by simp
  qed
  show ?thesis
    unfolding stft_p_run_blocks_single using r(1) d by blast
qed

subsection \<open>Zero padding\<close>

lemma offset_fill_loop_nat:
  assumes "off + m \<le> length a"
  shows "for_upto (int m) (\<lambda>k b. array_set b (int off + k) v) a
         = Some (take off a @ replicate m v @ drop (off + m) a)"
  using assms
proof (induction m)
  case 0
  then show ?case by (simp add: for_upto_def)
next
  case (Suc m)
  have IH: "for_upto (int m) (\<lambda>k b. array_set b (int off + k) v) a
            = Some (take off a @ replicate m v @ drop (off + m) a)"
    by (rule Suc.IH) (use Suc.prems in simp)
  let ?b = "take off a @ replicate m v @ drop (off + m) a"
  have len: "length ?b = length a" using Suc.prems by simp
  have idx: "nat (int off + int m) = off + m" by simp
  have "?b[off + m := v] = take off a @ replicate (Suc m) v @ drop (off + Suc m) a"
  proof -
    have l1: "length (take off a @ replicate m v) = off + m" using Suc.prems by simp
    have "((take off a @ replicate m v) @ drop (off + m) a)[off + m := v]
          = ((take off a @ replicate m v) @ [v]) @ drop (Suc (off + m)) a"
      by (rule list_update_append_drop [OF l1]) (use Suc.prems in simp)
    then show ?thesis by (simp add: replicate_append_same)
  qed
  then have "array_set ?b (int off + int m) v = Some (take off a @ replicate (Suc m) v @ drop (off + Suc m) a)"
    using Suc.prems len unfolding array_set_def idx by simp
  then show ?case
    unfolding for_upto_Suc IH by simp
qed

lemma stft_p_zeropad_exact:
  assumes "1 \<le> block_size s" "block_size s < fft_size s"
    "length (input_fft_buffer s) = nat (fft_size s)"
  shows "stft_p_zeropad s =
           Some (s\<lparr>input_fft_buffer :=
                     take (nat (block_size s) - 1) (input_fft_buffer s)
                     @ replicate (nat (fft_size s) - nat (block_size s)) 0
                     @ drop (nat (fft_size s) - 1) (input_fft_buffer s)\<rparr>)"
proof -
  let ?off = "nat (block_size s) - 1" and ?m = "nat (fft_size s) - nat (block_size s)"
  have e: "fft_size s - block_size s = int ?m" "block_size s - 1 = int ?off"
    "?off + ?m = nat (fft_size s) - 1" "?off + ?m \<le> length (input_fft_buffer s)"
    using assms by linarith+
  have L: "for_upto (int ?m) (\<lambda>k b. array_set b (int ?off + k) 0) (input_fft_buffer s)
           = Some (take ?off (input_fft_buffer s) @ replicate ?m 0
                   @ drop (nat (fft_size s) - 1) (input_fft_buffer s))"
    using offset_fill_loop_nat [OF e(4), of 0] unfolding e(3) .
  show ?thesis
    unfolding stft_p_zeropad_def Let_def e(1,2) L by simp
qed

subsection \<open>The example states\<close>

lemma valid_wit_cfg: "valid_config wit_cfg"
  by (simp add: valid_config_def wit_cfg_def)

lemma wit_init_eval: "stft_p_init_with wit_ext wit_cfg 44100 = Some wit_init"
  by code_simp

lemma wit_run3_eval: "stft_p_run wit_ext wit_init 3 [1, 2, 3] [9, 9, 9, 9] 0 = Some (wit_run3, [0, 0, 0, 9])"
  by code_simp

lemma wit_reset_eval: "stft_p_reset wit_run3 = Some wit_reset"
  by code_simp

lemma wit_run7_eval:
  "stft_p_run wit_ext wit_init 7 [1, 2, 3, 4, 5, 6, 7] [9, 9, 9, 9, 9, 9, 9, 9] 0
     = Some (wit_run7, [0, 0, 0, 0, 1, 2, 3, 9])"
  by code_simp

lemma wit_blocks_eval:
  "stft_p_run_blocks wit_ext wit_init [3, 4] [1, 2, 3, 4, 5, 6, 7] [9, 9, 9, 9, 9, 9, 9, 9] 0
     = Some (wit_run7, [0, 0, 0, 0, 1, 2, 3, 9])"
  by code_simp

lemma reachable_wit_init: "reachable wit_ext wit_cfg wit_init"
  by (rule reach_init [OF valid_wit_cfg wit_init_eval])

lemma reachable_wit_run3: "reachable wit_ext wit_cfg wit_run3"
  by (rule reach_run [OF reachable_wit_init wit_run3_eval])

lemma reachable_wit_reset: "reachable wit_ext wit_cfg wit_reset"
  by (rule reach_reset [OF reachable_wit_run3 wit_reset_eval])

lemma reachable_by_run_wit_run3: "reachable_by_run wit_ext wit_cfg wit_run3"
  by (rule run_run [OF run_init [OF valid_wit_cfg wit_init_eval] wit_run3_eval])

lemma wit_identity_stage: "identity_stage wit_ext 0"
  by (simp add: identity_stage_def wit_ext_def)

lemma wit_round_trip: "fftw_round_trip wit_ext 4"
proof -
  have u: "[0..<4] = [0, 1, 2, 3]" by (simp add: upt_conv_Cons)
  have "fftw_hc2r wit_ext (map (fftw_r2hc wit_ext x) [0..<4]) j = real 4 * x ! j"
    if jl: "j < 4" for x :: "real list" and j :: nat
  proof -
    consider "j = 0" | "j = 1" | "j = 2" | "j = 3" using jl by linarith
    then show ?thesis
      by cases (simp_all add: u wit_ext_def)
  qed
  then show ?thesis unfolding fftw_round_trip_def by blast
qed

lemma wit_cola: "cola wit_init"
proof -
  have g: "ola_gain wit_init = 1" by (simp add: ola_gain_def wit_init_def)
  have "ola_sum 4 2 (window_product wit_init) k = 1" if kl: "k < 2" for k
  proof -
    consider "k = 0" | "k = 1" using kl by linarith
    then show ?thesis
      by cases (simp_all add: ola_sum.simps window_product_def wit_init_def)
  qed
  then show ?thesis
    by (simp add: cola_def g) (simp add: wit_init_def)
qed

lemma pad_init_eval: "stft_p_init_with wit_ext pad_cfg 44100 = Some pad_init"
  by code_simp

lemma pad_run_fails: "stft_p_run wit_ext pad_init 1 [1] [9] 0 = None"
  by code_simp

lemma wit_run3_of7_eval:
  "stft_p_run wit_ext wit_init 3 [1, 2, 3, 4, 5, 6, 7] [9, 9, 9, 9, 9, 9, 9, 9] 0
     = Some (wit_run3, [0, 0, 0, 9, 9, 9, 9, 9])"
  by code_simp

lemma wit_run4_eval:
  "stft_p_run wit_ext wit_init 4 [1, 2, 3, 4, 5, 6, 7] [9, 9, 9, 9, 9, 9, 9, 9] 0
     = Some (wit_run4, [0, 0, 0, 0, 9, 9, 9, 9])"
  by code_simp

lemma wit_emitted_eval:
  "take (nat (hop wit_run3)) (overlap_added (pushed wit_run3 4) (cycle_frame wit_ext 0 (pushed wit_run3 4)))
     @ drop (nat (hop wit_run3)) (out_fifo wit_run3) = [1, 2, 0, 0]"
  by code_simp




lemma lifetime_wit_run3: "lifetime wit_ext wit_cfg wit_run3"
  by (rule life_run [OF life_init [OF wit_init_eval] wit_run3_eval])

lemma lifetime_wit_reset: "lifetime wit_ext wit_cfg wit_reset"
  by (rule life_reset [OF lifetime_wit_run3 wit_reset_eval])

lemma flat_identity_stage: "identity_stage flat_ext e"
  by (simp add: identity_stage_def flat_ext_def)

lemma flat_round_trip: "fftw_round_trip flat_ext N"
  by (simp add: fftw_round_trip_def flat_ext_def)

lemma flat_window: "generated_window flat_ext 3 2048 (replicate 2048 0) = replicate 2048 1"
  by (simp add: generated_window_def flat_ext_def map_replicate_const)

lemma flat_inner_product: "(\<Sum>i<n. replicate n (1::real) ! i * replicate n 1 ! i) = real n"
  by simp

lemma flat_initial_state:
  "fft_size (initial_state flat_ext default_config sr) = 2048"
  "hop (initial_state flat_ext default_config sr) = 512"
  "overlap_factor (initial_state flat_ext default_config sr) = 4"
  "overlap_scale_factor (initial_state flat_ext default_config sr) = 1"
  "input_window (initial_state flat_ext default_config sr) = replicate 2048 1"
  "output_window (initial_state flat_ext default_config sr) = replicate 2048 1"
  using flat_inner_product [of 2048]
  by (simp_all add: initial_state_def default_config_def Let_def flat_window)

lemma flat_cola: "cola (initial_state flat_ext default_config sr)"
proof -
  let ?s = "initial_state flat_ext default_config sr"
  have p: "window_product ?s i = 1" if "i < 2048" for i
    using that by (simp add: window_product_def flat_initial_state)
  have "ola_sum 2048 512 (window_product ?s) k = 4" if k: "k < 512" for k
  proof -
    have "ola_sum 2048 512 (window_product ?s) (k + 512 + 512 + 512 + 512) = 0"
      by (rule ola_sum_beyond) simp
    then have "ola_sum 2048 512 (window_product ?s) (k + 512 + 512 + 512) = 1"
      using k by (subst ola_sum_step) (simp_all add: p)
    then have "ola_sum 2048 512 (window_product ?s) (k + 512 + 512) = 2"
      using k by (subst ola_sum_step) (simp_all add: p)
    then have "ola_sum 2048 512 (window_product ?s) (k + 512) = 3"
      using k by (subst ola_sum_step) (simp_all add: p)
    then show ?thesis
      using k by (subst ola_sum_step) (simp_all add: p)
  qed
  then show ?thesis
    by (simp add: cola_def ola_gain_def flat_initial_state)
qed

lemma flat_init_eval: "stft_p_init flat_ext 44100 = Some flat_init"
  unfolding stft_p_init_def flat_init_def by (rule stft_p_init_with_exact [OF valid_default_config])

lemma flat_run_eval:
  "map_option snd (stft_p_run flat_ext flat_init 2049 (1 # replicate 2048 0) (replicate 2049 9) 0)
     = Some (replicate 2048 0 @ [1])"
proof -
  have i: "stft_p_init_with flat_ext default_config 44100 = Some flat_init"
    using flat_init_eval by (simp add: stft_p_init_def)
  have inv: "stft_inv flat_init"
    unfolding flat_init_def by (rule stft_inv_initial_state [OF valid_default_config])
  have n: "sum_list [2049] \<le> length (1 # replicate 2048 (0::real))"
    "sum_list [2049] \<le> length (replicate 2049 (9::real))"
    by simp_all
  have rt: "fftw_round_trip flat_ext (nat (cfg_fft_size default_config))"
    by (rule flat_round_trip)
  have co: "cola flat_init" unfolding flat_init_def by (rule flat_cola)
  obtain s' out' where r: "stft_p_run_blocks flat_ext flat_init [2049] (1 # replicate 2048 0) (replicate 2049 9) 0 = Some (s', out')"
    "\<forall>j<sum_list [2049]. out' ! j =
        (if j < nat (cfg_fft_size default_config) then 0
         else (1 # replicate 2048 0) ! (j - nat (cfg_fft_size default_config)))"
    using overlap_add_reconstruction [OF valid_default_config i flat_identity_stage rt co n]
    by blast
  have run: "stft_p_run flat_ext flat_init 2049 (1 # replicate 2048 0) (replicate 2049 9) 0 = Some (s', out')"
    using r(1) unfolding stft_p_run_blocks_single by simp
  have len: "length out' = 2049"
    using stft_p_run_preserves [OF run inv] by simp
  have "out' ! j = (replicate 2048 0 @ [1]) ! j" if j: "j < 2049" for j
  proof (cases "j < 2048")
    case True
    then show ?thesis using r(2) j by (simp add: default_config_def nth_append)
  next
    case False
    then have "j = 2048" using j by simp
    then show ?thesis using r(2) by (simp add: default_config_def nth_append)
  qed
  then have "out' = replicate 2048 0 @ [1]"
    using len by (intro nth_equalityI) simp_all
  then show ?thesis using run by simp
qed

section \<open>The properties of the specification\<close>

text \<open>
  C1. The claim discards the first \<open>algorithmic_latency = transform_size - hop\<close> output
  samples, the number that \<open>get_latency()\<close> reports, and expects the input signal from
  there on. The code delays the signal by \<open>transform_size\<close>, one hop more. With the
  compiled-in configuration (size 2048, hop 512), rectangular windows and an identity
  stage, \<open>get_latency()\<close> is 1536, and the impulse \<open>1, 0, 0, ...\<close> comes out at the
  output index 2048: the output at the index 1536 is 0. With size 4, hop 2, a Hann
  input window and the real DFT, \<open>get_latency()\<close> is 2 and the input \<open>1, ..., 7\<close> gives
  the output \<open>0, 0, 0, 0, 1, 2, 3\<close>, which is \<open>0, 0, 1, 2, 3\<close> after the first two
  samples. All values are small dyadic numbers, so rounding plays no part.
  \<open>overlap_add_reconstruction\<close> shows the delay by \<open>transform_size\<close> for every valid
  configuration.
\<close>

theorem run_delay_exceeds_reported_latency:
  "stft_p_init flat_ext 44100 = Some flat_init \<and> stft_p_get_latency flat_init = 1536 \<and>
   map_option snd (stft_p_run flat_ext flat_init 2049 (1 # replicate 2048 0) (replicate 2049 9) 0)
     = Some (replicate 2048 0 @ [1]) \<and>
   (replicate 2048 0 @ [1 :: real]) ! nat (stft_p_get_latency flat_init) = 0 \<and>
   (1 # replicate 2048 (0 :: real)) ! 0 = 1 \<and>
   stft_p_init_with wit_ext wit_cfg 44100 = Some wit_init \<and> stft_p_get_latency wit_init = 2 \<and>
   stft_p_run wit_ext wit_init 7 [1, 2, 3, 4, 5, 6, 7] [9, 9, 9, 9, 9, 9, 9, 9] 0
     = Some (wit_run7, [0, 0, 0, 0, 1, 2, 3, 9]) \<and>
   take 5 (drop (nat (stft_p_get_latency wit_init)) [0, 0, 0, 0, 1, 2, 3, 9 :: real]) = [0, 0, 1, 2, 3]"
proof -
  have l: "stft_p_get_latency flat_init = 1536"
    using stft_p_init_latency [OF flat_init_eval] by simp
  have z: "(replicate 2048 0 @ [1 :: real]) ! 1536 = 0"
    by (simp add: nth_append)
  show ?thesis
    using flat_init_eval flat_run_eval l z wit_init_eval wit_run7_eval
    by (simp add: stft_p_get_latency_def wit_init_def)
qed

text \<open>
  C2. \<open>stft_p_zeropad\<close> with \<open>transform_size = 4\<close> and \<open>block_size = 2\<close> on the
  time-domain buffer \<open>[1, 2, 3, 4]\<close>: the claim asks for zeros at the indices 2 and 3,
  that is \<open>[1, 2, 0, 0]\<close>. The loop writes \<open>block_size - 1 + k\<close>, so it clears the
  indices 1 and 2: the last sample of the block is lost and the last entry of the
  buffer keeps its old value. \<open>stft_p_zeropad_exact\<close> shows the same shift by one for
  every state with \<open>1 \<le> block_size < transform_size\<close>.
\<close>

theorem zeropad_off_by_one:
  "stft_p_zeropad pad_state = Some (pad_state\<lparr>input_fft_buffer := [1, 0, 0, 4]\<rparr>)"
  by (simp add: stft_p_zeropad_def pad_state_def pad_init_def for_upto_def array_set_def upt_conv_Cons)

text \<open>
  C3 (amended). Initialisation with \<open>0 < block_size \<le> transform_size\<close> and a non-zero
  overlap factor succeeds, and after its window setup the reconstruction scale factor is
  the inner product of the input window and the output window divided by
  \<open>block_size\<close> (not \<open>transform_size\<close>; the two agree in the compiled-in
  configuration). The factor is computed once. In every later state of the object it has
  the value of the setup, and so have \<open>overlap_factor\<close> and \<open>block_size\<close>:
  \<open>run()\<close> leaves the windows as they are, and \<open>reset()\<close>, the one operation that
  changes a window, zero-fills both windows and does not recompute the factor.
\<close>

theorem scale_factor_fixed_at_setup:
  assumes "0 < cfg_block_size cfg" "cfg_block_size cfg \<le> cfg_fft_size cfg" "cfg_overlap_factor cfg \<noteq> 0"
  shows "\<exists>s0. stft_p_init_with ext cfg sample_rate = Some s0 \<and>
           block_size s0 = cfg_block_size cfg \<and> fft_size s0 = cfg_fft_size cfg \<and>
           overlap_scale_factor s0 =
             inner_product (input_window s0) (output_window s0) / real_of_int (block_size s0) \<and>
           (\<forall>s. lifetime ext cfg s \<longrightarrow>
              overlap_scale_factor s = overlap_scale_factor s0 \<and>
              overlap_factor s = overlap_factor s0 \<and> block_size s = block_size s0 \<and>
              (input_window s = input_window s0 \<and> output_window s = output_window s0 \<or>
               input_window s = replicate (nat (fft_size s0)) 0 \<and>
               output_window s = replicate (nat (fft_size s0)) 0) \<and>
              (\<forall>s'. stft_p_reset s = Some s' \<longrightarrow>
                 input_window s' = replicate (nat (fft_size s0)) 0 \<and>
                 output_window s' = replicate (nat (fft_size s0)) 0 \<and>
                 overlap_scale_factor s' = overlap_scale_factor s0))"
proof -
  let ?F = "cfg_fft_size cfg" and ?B = "cfg_block_size cfg"
  let ?iw = "generated_window ext (cfg_input_window_type cfg) ?B (replicate (nat ?F) 0)"
  let ?ow = "generated_window ext (cfg_output_window_type cfg) ?B (replicate (nat ?F) 0)"
  let ?c = "(\<Sum>i<nat ?B. ?iw ! i * ?ow ! i) / real_of_int ?B"
  have init: "\<exists>s. stft_p_init_with ext cfg sr = Some s \<and> block_size s = ?B \<and> fft_size s = ?F \<and>
           input_window s = ?iw \<and> output_window s = ?ow \<and> overlap_scale_factor s = ?c \<and>
           overlap_factor s = cfg_overlap_factor cfg" for sr
    using stft_p_init_with_general [OF assms, of ext sr] by auto
  obtain s0 where s0: "stft_p_init_with ext cfg sample_rate = Some s0" "block_size s0 = ?B"
    "fft_size s0 = ?F" "input_window s0 = ?iw" "output_window s0 = ?ow" "overlap_scale_factor s0 = ?c"
    "overlap_factor s0 = cfg_overlap_factor cfg"
    using init [of sample_rate] by blast
  have F: "0 \<le> ?F" "nat ?B \<le> nat ?F" using assms by linarith+
  have len: "length ?iw = nat ?F" "length ?ow = nat ?F"
    using assms(1) F by (simp_all add: length_generated_window)
  have ip: "inner_product ?iw ?ow = (\<Sum>i<nat ?B. ?iw ! i * ?ow ! i)"
    by (rule inner_product_generated_window) (use assms in auto)
  let ?J = "\<lambda>s. fft_size s = ?F \<and> block_size s = ?B \<and> overlap_factor s = cfg_overlap_factor cfg \<and>
              overlap_scale_factor s = ?c \<and>
              (input_window s = ?iw \<and> output_window s = ?ow \<or>
               input_window s = replicate (nat ?F) 0 \<and> output_window s = replicate (nat ?F) 0)"
  have J: "?J s" if "lifetime ext cfg s" for s
    using that
  proof (induction rule: lifetime.induct)
    case (life_init sr s)
    then show ?case using init [of sr] by auto
  next
    case (life_run s n inp out enable s' out')
    then show ?case using stft_p_run_setup [OF life_run(2)] by simp
  next
    case (life_reset s s')
    have l: "length (input_window s) = nat (fft_size s)" "length (output_window s) = nat (fft_size s)"
      using life_reset(3) len by auto
    have "0 \<le> fft_size s" using life_reset(3) F by simp
    from stft_p_reset_setup [OF life_reset(2) this l] life_reset(3) show ?case by simp
  qed
  have R: "input_window s' = replicate (nat ?F) 0 \<and> output_window s' = replicate (nat ?F) 0 \<and>
           overlap_scale_factor s' = ?c"
    if "lifetime ext cfg s" "stft_p_reset s = Some s'" for s s'
  proof -
    note j = J [OF that(1)]
    have l: "length (input_window s) = nat (fft_size s)" "length (output_window s) = nat (fft_size s)"
      using j len by auto
    have "0 \<le> fft_size s" using j F by simp
    from stft_p_reset_setup [OF that(2) this l] j show ?thesis by simp
  qed
  show ?thesis
    using s0 ip J R by (intro exI [of _ s0]) simp
qed

text \<open>
  Size 4 with \<open>block_size = 4\<close>: the state after initialisation, after three samples
  and after a reset. Size 4 with \<open>block_size = 2\<close>: the state after initialisation.
\<close>

theorem scale_factor_fixed_at_setup_witness:
  "0 < cfg_block_size wit_cfg \<and> cfg_block_size wit_cfg \<le> cfg_fft_size wit_cfg \<and>
   cfg_overlap_factor wit_cfg \<noteq> 0 \<and> stft_p_init_with wit_ext wit_cfg 44100 = Some wit_init \<and>
   overlap_scale_factor wit_init = inner_product [0, 1 / 2, 1, 1 / 2] [1, 1, 1, 1] / 4 \<and>
   lifetime wit_ext wit_cfg wit_run3 \<and> overlap_scale_factor wit_run3 = overlap_scale_factor wit_init \<and>
   input_window wit_run3 = input_window wit_init \<and>
   stft_p_reset wit_run3 = Some wit_reset \<and> input_window wit_reset = replicate 4 0 \<and>
   output_window wit_reset = replicate 4 0 \<and>
   overlap_scale_factor wit_reset = overlap_scale_factor wit_init \<and>
   0 < cfg_block_size pad_cfg \<and> cfg_block_size pad_cfg \<le> cfg_fft_size pad_cfg \<and>
   cfg_overlap_factor pad_cfg \<noteq> 0 \<and> stft_p_init_with wit_ext pad_cfg 44100 = Some pad_init \<and>
   overlap_scale_factor pad_init = inner_product [0, 1 / 2, 0, 0] [1, 1, 0, 0] / 2"
proof -
  have c: "0 < cfg_block_size wit_cfg" "cfg_block_size wit_cfg \<le> cfg_fft_size wit_cfg"
    "cfg_overlap_factor wit_cfg \<noteq> 0"
    by (simp_all add: wit_cfg_def)
  obtain s0 where s0: "stft_p_init_with wit_ext wit_cfg 44100 = Some s0"
    "overlap_scale_factor s0 = inner_product (input_window s0) (output_window s0) / real_of_int (block_size s0)"
    "\<forall>s. lifetime wit_ext wit_cfg s \<longrightarrow>
        overlap_scale_factor s = overlap_scale_factor s0 \<and>
        (\<forall>s'. stft_p_reset s = Some s' \<longrightarrow>
           input_window s' = replicate (nat (fft_size s0)) 0 \<and>
           output_window s' = replicate (nat (fft_size s0)) 0 \<and>
           overlap_scale_factor s' = overlap_scale_factor s0)"
    using scale_factor_fixed_at_setup [OF c, of wit_ext 44100] by blast
  have e: "s0 = wit_init" using s0(1) wit_init_eval by simp
  have a: "overlap_scale_factor wit_init = inner_product [0, 1 / 2, 1, 1 / 2] [1, 1, 1, 1] / 4"
    using s0(2) unfolding e by (simp add: wit_init_def)
  have r: "overlap_scale_factor wit_run3 = overlap_scale_factor wit_init"
    "input_window wit_reset = replicate 4 0" "output_window wit_reset = replicate 4 0"
    "overlap_scale_factor wit_reset = overlap_scale_factor wit_init"
    using s0(3) [unfolded e] lifetime_wit_run3 wit_reset_eval by (auto simp: wit_init_def)
  have p: "overlap_scale_factor pad_init = inner_product [0, 1 / 2, 0, 0] [1, 1, 0, 0] / 2"
    using scale_factor_fixed_at_setup [of pad_cfg wit_ext 44100] pad_init_eval
    by (simp add: pad_cfg_def pad_init_def)
  show ?thesis
    using c wit_init_eval a lifetime_wit_run3 r wit_reset_eval pad_init_eval p
    by (simp add: pad_cfg_def wit_run3_def wit_init_def)
qed

text \<open>
  C3 as stated fails in two ways. For \<open>transform_size = 4\<close>, \<open>block_size = 2\<close> the
  windows after setup are \<open>[0, 1/2, 0, 0]\<close> and \<open>[1, 1, 0, 0]\<close>, their inner product
  is \<open>1/2\<close>, and the scale factor is \<open>1/4\<close>, not \<open>1/8\<close>. And after a window change:
  \<open>reset()\<close> on the state after three samples (size 4, \<open>block_size = 4\<close>) changes
  both windows to zeros, whose inner product is 0, and the scale factor is still \<open>1/2\<close>.
\<close>

theorem scale_factor_counterexample:
  "stft_p_init_with wit_ext pad_cfg 44100 = Some pad_init \<and>
   overlap_scale_factor pad_init \<noteq>
     inner_product (input_window pad_init) (output_window pad_init) / real_of_int (fft_size pad_init) \<and>
   stft_p_init_with wit_ext wit_cfg 44100 = Some wit_init \<and>
   stft_p_run wit_ext wit_init 3 [1, 2, 3] [9, 9, 9, 9] 0 = Some (wit_run3, [0, 0, 0, 9]) \<and>
   stft_p_reset wit_run3 = Some wit_reset \<and>
   input_window wit_reset \<noteq> input_window wit_run3 \<and>
   output_window wit_reset \<noteq> output_window wit_run3 \<and>
   overlap_scale_factor wit_reset \<noteq>
     inner_product (input_window wit_reset) (output_window wit_reset) / real_of_int (fft_size wit_reset)"
  using pad_init_eval wit_init_eval wit_run3_eval wit_reset_eval
  by (simp add: pad_init_def wit_reset_def wit_run3_def inner_product_def)

text \<open>
  C4 (amended). After initialisation and after any sequence of \<open>run()\<close> calls, the input
  window and the output window each have \<open>transform_size\<close> entries and are the sequence
  that window setup computes from the window type and the length alone. \<open>reset()\<close>
  does not keep this: it succeeds and leaves both windows zero-filled.
\<close>

theorem windows_fixed_until_reset:
  assumes "reachable_by_run ext cfg s"
  shows "input_window s = window_of ext (cfg_input_window_type cfg) (cfg_fft_size cfg) \<and>
         output_window s = window_of ext (cfg_output_window_type cfg) (cfg_fft_size cfg) \<and>
         length (input_window s) = nat (cfg_fft_size cfg) \<and>
         length (output_window s) = nat (cfg_fft_size cfg) \<and>
         (\<exists>s'. stft_p_reset s = Some s' \<and>
               input_window s' = replicate (nat (cfg_fft_size cfg)) 0 \<and>
               output_window s' = replicate (nat (cfg_fft_size cfg)) 0)"
proof -
  note w = reachable_by_run_windows [OF assms]
  have F: "0 \<le> fft_size s" "0 \<le> block_size s"
    "length (input_fft_buffer s) = nat (fft_size s)" "length (output_fft_buffer s) = nat (fft_size s)"
    "length (input_window s) = nat (fft_size s)" "length (output_window s) = nat (fft_size s)"
    "length (in_fifo s) = nat (block_size s)" "length (out_fifo s) = nat (block_size s)"
    "length (output_accum s) = nat (block_size s * 2)"
    using w by (auto simp: stft_inv_def stft_shape_def)
  show ?thesis
    unfolding stft_p_reset_exact [OF F]
    using w by (simp add: length_window_of)
qed

theorem windows_fixed_until_reset_witness:
  "reachable_by_run wit_ext wit_cfg wit_run3 \<and>
   input_window wit_run3 = window_of wit_ext 0 4 \<and> output_window wit_run3 = window_of wit_ext 1 4 \<and>
   stft_p_reset wit_run3 = Some wit_reset \<and> input_window wit_reset = replicate 4 0"
  using windows_fixed_until_reset [OF reachable_by_run_wit_run3] reachable_by_run_wit_run3 wit_reset_eval
  by (simp add: wit_cfg_def)

text \<open>
  C4 as stated fails for \<open>reset()\<close>: the state after three samples has the generated
  windows, the state that \<open>reset()\<close> makes of it has not.
\<close>

theorem windows_reset_counterexample:
  "reachable wit_ext wit_cfg wit_run3 \<and> stft_p_reset wit_run3 = Some wit_reset \<and>
   input_window wit_run3 = window_of wit_ext (window_option_input wit_run3) (fft_size wit_run3) \<and>
   input_window wit_reset \<noteq> window_of wit_ext (window_option_input wit_reset) (fft_size wit_reset) \<and>
   output_window wit_reset \<noteq> window_of wit_ext (window_option_output wit_reset) (fft_size wit_reset)"
  using reachable_wit_run3 wit_reset_eval
  by (simp add: wit_run3_def wit_reset_def window_of_def generated_window_def wit_ext_def upt_conv_Cons)

text \<open>
  C5. In every state that initialisation, \<open>run()\<close> and \<open>reset()\<close> can reach,
  \<open>get_latency()\<close> returns \<open>transform_size - hop\<close> with
  \<open>hop = transform_size / overlap_factor\<close>: a value fixed by the configuration, the same
  before and after every \<open>run()\<close> and every \<open>reset()\<close>.
\<close>

theorem get_latency_constant:
  assumes "reachable ext cfg s"
  shows "stft_p_get_latency s = fft_size s - hop s \<and> hop s = fft_size s div overlap_factor s \<and>
         fft_size s = cfg_fft_size cfg \<and> overlap_factor s = cfg_overlap_factor cfg \<and>
         stft_p_get_latency s = cfg_fft_size cfg - cfg_fft_size cfg div cfg_overlap_factor cfg"
  using reachable_inv [OF assms] by (simp add: stft_p_get_latency_def)

text \<open>The state after initialisation, after a run of three samples, and after a reset.\<close>

theorem get_latency_constant_witness:
  "reachable wit_ext wit_cfg wit_init \<and> reachable wit_ext wit_cfg wit_run3 \<and>
   reachable wit_ext wit_cfg wit_reset \<and>
   stft_p_get_latency wit_init = 2 \<and> stft_p_get_latency wit_run3 = 2 \<and>
   stft_p_get_latency wit_reset = 2"
  using get_latency_constant [OF reachable_wit_init] get_latency_constant [OF reachable_wit_run3]
    get_latency_constant [OF reachable_wit_reset] reachable_wit_init reachable_wit_run3 reachable_wit_reset
  by (simp add: wit_cfg_def)

text \<open>
  C6. From every reachable state, a call of \<open>run()\<close> with \<open>0 \<le> n_samples\<close> on buffers
  that hold \<open>n_samples\<close> entries succeeds. It writes the entries \<open>0\<close> to
  \<open>n_samples - 1\<close> of the output buffer and no other; entry \<open>k\<close> is the entry of the
  output FIFO at \<open>read_position - algorithmic_latency\<close> (a position below \<open>hop\<close>) in
  the state reached after \<open>k\<close> samples. The output FIFO holds synthesized samples: the
  step of sample \<open>k\<close> leaves it as it is unless it completes a frame, and then the
  cycle replaces its first \<open>hop\<close> entries by the first \<open>hop\<close> entries of the
  accumulator after the synthesized frame of that cycle (\<open>cycle_frame\<close>: the frame
  windowed, transformed, passed through the spectral stage, transformed back, windowed
  and scaled) has been added to it. So every popped entry was emitted by the synthesis of
  the latest cycle, or is an initial zero when no cycle has run since initialisation or
  reset. The filled part of the input FIFO, the entries below \<open>read_position\<close>, is
  afterwards a suffix of its old filled part followed by the \<open>n_samples\<close> inputs in
  their order. With \<open>n_samples = 0\<close> the state and the output buffer are unchanged.
\<close>

theorem run_pushes_and_pops:
  assumes "reachable ext cfg s" "0 \<le> n" "n \<le> int (length inp)" "n \<le> int (length out)"
  shows "stft_p_run ext s 0 inp out e = Some (s, out) \<and>
         (\<exists>s' out'. stft_p_run ext s n inp out e = Some (s', out') \<and> reachable ext cfg s' \<and>
           length out' = length out \<and> drop (nat n) out' = drop (nat n) out \<and>
           (\<forall>k<nat n. \<exists>sk ok. stft_p_run ext s (int k) inp out e = Some (sk, ok) \<and>
               read_position sk - input_latency sk < hop sk \<and>
               array_get (out_fifo sk) (read_position sk - input_latency sk) = Some (out' ! k) \<and>
               (\<exists>sk' ok'. stft_p_run ext s (int (Suc k)) inp out e = Some (sk', ok') \<and>
                  out_fifo sk' =
                    (if read_position sk + 1 = block_size sk
                     then take (nat (hop sk))
                            (overlap_added (pushed sk (inp ! k)) (cycle_frame ext e (pushed sk (inp ! k))))
                          @ drop (nat (hop sk)) (out_fifo sk)
                     else out_fifo sk))) \<and>
           take (nat (read_position s')) (in_fifo s') =
             drop (nat (read_position s) + nat n - nat (read_position s'))
               (take (nat (read_position s)) (in_fifo s) @ take (nat n) inp))"
proof -
  have inv: "stft_inv s" using reachable_inv [OF assms(1)] by simp
  have zero: "stft_p_run ext s 0 inp out e = Some (s, out)"
    by (simp add: stft_p_run_def for_upto_def)
  have b: "nat n \<le> length inp" "nat n \<le> length out" "int (nat n) = n"
    using assms(2-4) by simp_all
  obtain s' out' where r: "stft_p_run ext s n inp out e = Some (s', out')"
    "length out' = length out" "drop (nat n) out' = drop (nat n) out"
    "\<forall>k<nat n. \<exists>sk ok. stft_p_run ext s (int k) inp out e = Some (sk, ok) \<and>
                     out' ! k = out_fifo sk ! nat (read_position sk - input_latency sk)"
    "take (nat (read_position s')) (in_fifo s') =
             drop (nat (read_position s) + nat n - nat (read_position s'))
               (take (nat (read_position s)) (in_fifo s) @ take (nat n) inp)"
    using stft_p_run_trace [OF inv b(1,2), of ext e] unfolding b(3) by blast
  have reach: "reachable ext cfg s'" by (rule reach_run [OF assms(1) r(1)])
  have pop: "\<exists>sk ok. stft_p_run ext s (int k) inp out e = Some (sk, ok) \<and>
               read_position sk - input_latency sk < hop sk \<and>
               array_get (out_fifo sk) (read_position sk - input_latency sk) = Some (out' ! k) \<and>
               (\<exists>sk' ok'. stft_p_run ext s (int (Suc k)) inp out e = Some (sk', ok') \<and>
                  out_fifo sk' =
                    (if read_position sk + 1 = block_size sk
                     then take (nat (hop sk))
                            (overlap_added (pushed sk (inp ! k)) (cycle_frame ext e (pushed sk (inp ! k))))
                          @ drop (nat (hop sk)) (out_fifo sk)
                     else out_fifo sk))"
    if kn: "k < nat n" for k
  proof -
    obtain sk ok where k: "stft_p_run ext s (int k) inp out e = Some (sk, ok)"
      "out' ! k = out_fifo sk ! nat (read_position sk - input_latency sk)"
      using r(4) kn by blast
    have isk: "stft_inv sk" using stft_p_run_preserves [OF k(1) inv] by simp
    then have rp: "read_position sk - input_latency sk < hop sk"
      "0 \<le> read_position sk - input_latency sk"
      "read_position sk - input_latency sk < int (length (out_fifo sk))"
      "read_position sk < block_size sk"
      by (auto simp: stft_inv_def stft_shape_def)
    have kl: "k < length inp" "k < length out" using kn b(1,2) by simp_all
    note nx = stft_p_run_next [OF k(1) inv kl]
    have "out_fifo (stepped ext e sk (inp ! k)) =
            (if read_position sk + 1 = block_size sk
             then take (nat (hop sk))
                    (overlap_added (pushed sk (inp ! k)) (cycle_frame ext e (pushed sk (inp ! k))))
                  @ drop (nat (hop sk)) (out_fifo sk)
             else out_fifo sk)"
      using rp(4) by (simp add: stepped_def cycled_out_fifo)
    then show ?thesis using k rp nx by (auto simp: array_get_def)
  qed
  show ?thesis
    using zero r(1,2,3,5) reach pop by blast
qed

text \<open>
  Seven samples from the initial state: the output is \<open>[0, 0, 0, 0, 1, 2, 3]\<close>, the
  last three entries being synthesized samples. The fourth sample completes the first
  frame, and its cycle emits \<open>[1, 2]\<close> into the output FIFO.
\<close>

theorem run_pushes_and_pops_witness:
  "reachable wit_ext wit_cfg wit_init \<and> (0::int) \<le> 7 \<and> 7 \<le> int (length [1, 2, 3, 4, 5, 6, 7 :: real]) \<and>
   7 \<le> int (length [9, 9, 9, 9, 9, 9, 9, 9 :: real]) \<and>
   stft_p_run wit_ext wit_init 0 [1, 2, 3, 4, 5, 6, 7] [9, 9, 9, 9, 9, 9, 9, 9] 0
     = Some (wit_init, [9, 9, 9, 9, 9, 9, 9, 9]) \<and>
   stft_p_run wit_ext wit_init 7 [1, 2, 3, 4, 5, 6, 7] [9, 9, 9, 9, 9, 9, 9, 9] 0
     = Some (wit_run7, [0, 0, 0, 0, 1, 2, 3, 9]) \<and>
   stft_p_run wit_ext wit_init 3 [1, 2, 3, 4, 5, 6, 7] [9, 9, 9, 9, 9, 9, 9, 9] 0
     = Some (wit_run3, [0, 0, 0, 9, 9, 9, 9, 9]) \<and>
   read_position wit_run3 + 1 = block_size wit_run3 \<and>
   stft_p_run wit_ext wit_init 4 [1, 2, 3, 4, 5, 6, 7] [9, 9, 9, 9, 9, 9, 9, 9] 0
     = Some (wit_run4, [0, 0, 0, 0, 9, 9, 9, 9]) \<and>
   out_fifo wit_run4 =
     take (nat (hop wit_run3)) (overlap_added (pushed wit_run3 4) (cycle_frame wit_ext 0 (pushed wit_run3 4)))
     @ drop (nat (hop wit_run3)) (out_fifo wit_run3) \<and>
   out_fifo wit_run4 = [1, 2, 0, 0] \<and>
   take (nat (read_position wit_run7)) (in_fifo wit_run7) = drop 6 ([0, 0] @ [1, 2, 3, 4, 5, 6, 7])"
  using run_pushes_and_pops [OF reachable_wit_init, of 7 "[1, 2, 3, 4, 5, 6, 7]" "[9, 9, 9, 9, 9, 9, 9, 9]" 0]
    reachable_wit_init wit_run7_eval wit_run3_of7_eval wit_run4_eval wit_emitted_eval
  by (simp add: wit_run7_def wit_run3_def wit_run4_def wit_init_def)

text \<open>
  C7. Feeding a sample sequence through successive \<open>run()\<close> calls, one per block of any
  partition into consecutive blocks (the caller advancing its input and output pointers
  by the block length), gives the same final state and the same output buffer as one
  \<open>run()\<close> call on the whole sequence; an out-of-bounds failure of one is a failure of
  the other.
\<close>

theorem run_call_boundaries:
  "stft_p_run_blocks ext s ns inp out enable = stft_p_run ext s (int (sum_list ns)) inp out enable"
  by (rule stft_p_run_blocks_single)

text \<open>
  C8. In every reachable state \<open>read_position\<close> lies between \<open>algorithmic_latency\<close> and
  \<open>block_size\<close> (it is below \<open>block_size\<close> between two samples and reaches it at most
  right after the increment). Processing one more sample succeeds; the
  analysis-processing-synthesis cycle runs exactly when the incremented
  \<open>read_position\<close> equals \<open>block_size\<close>, and right after the cycle \<open>read_position\<close>
  is \<open>algorithmic_latency\<close> again; otherwise the sample is only pushed.
\<close>

theorem read_position_cycle:
  assumes "reachable ext cfg s" and "0 \<le> k" "k < int (length inp)" "k < int (length out)"
  shows "input_latency s \<le> read_position s \<and> read_position s < block_size s \<and>
         input_latency s < read_position (pushed s (inp ! nat k)) \<and>
         read_position (pushed s (inp ! nat k)) \<le> block_size s \<and>
         (\<exists>s' out'. stft_p_run_sample ext e inp k (s, out) = Some (s', out') \<and>
            (if read_position (pushed s (inp ! nat k)) = block_size s
             then stft_p_cycle ext e (pushed s (inp ! nat k)) = Some s' \<and>
                  read_position s' = input_latency s
             else s' = pushed s (inp ! nat k)))"
proof -
  have inv: "stft_inv s" using reachable_inv [OF assms(1)] by simp
  then have b: "stft_shape s" "input_latency s \<le> read_position s" "read_position s < block_size s"
    by (simp_all add: stft_inv_def)
  have c: "stft_p_cycle ext e (pushed s (inp ! nat k)) = Some (cycled ext e (pushed s (inp ! nat k)))"
    by (rule stft_p_cycle_exact [OF stft_shape_pushed [OF b(1)]])
  show ?thesis
    using stft_p_run_sample_exact [OF b assms(2-4), of ext e] b c
    by (auto simp: stepped_def)
qed

text \<open>
  From the initial state the first sample is only pushed; from the state after three
  samples the fourth one completes a hop and runs the cycle.
\<close>

theorem read_position_cycle_witness:
  "reachable wit_ext wit_cfg wit_init \<and> reachable wit_ext wit_cfg wit_run3 \<and>
   (0::int) \<le> 0 \<and> (0::int) < int (length [4::real]) \<and> (0::int) < int (length [9::real]) \<and>
   read_position wit_init = input_latency wit_init \<and>
   read_position (pushed wit_init 4) < block_size wit_init \<and>
   stft_p_run_sample wit_ext 0 [4] 0 (wit_init, [9]) = Some (pushed wit_init 4, [0]) \<and>
   read_position (pushed wit_run3 4) = block_size wit_run3 \<and>
   (\<exists>s' out'. stft_p_run_sample wit_ext 0 [4] 0 (wit_run3, [9]) = Some (s', out') \<and>
       stft_p_cycle wit_ext 0 (pushed wit_run3 4) = Some s' \<and> read_position s' = input_latency wit_run3)"
proof -
  have a: "stft_p_run_sample wit_ext 0 [4] 0 (wit_init, [9]) = Some (pushed wit_init 4, [0])"
    by code_simp
  show ?thesis
    using read_position_cycle [OF reachable_wit_run3, of 0 "[4]" "[9]" 0]
      read_position_cycle [OF reachable_wit_init, of 0 "[4]" "[9]" 0]
      reachable_wit_run3 reachable_wit_init a
    by (simp add: wit_run3_def wit_init_def pushed_def)
qed



text \<open>
  C10. In every reachable state the output accumulator has \<open>2 * block_size\<close> entries and
  those at the indices \<open>block_size\<close> to \<open>2 * block_size - 1\<close> are zero, so the shift by
  \<open>hop\<close> at the end of a cycle moves only zeros into the vacated tail.
\<close>

theorem output_accum_tail_zero:
  assumes "reachable ext cfg s"
  shows "length (output_accum s) = nat (2 * block_size s) \<and>
         (\<forall>i. block_size s \<le> i \<and> i < 2 * block_size s \<longrightarrow> array_get (output_accum s) i = Some 0)"
proof -
  have inv: "stft_inv s" using reachable_inv [OF assms] by simp
  have len: "length (output_accum s) = nat (block_size s * 2)"
    using inv by (simp add: stft_inv_def stft_shape_def)
  have z: "\<forall>i. nat (block_size s) \<le> i \<and> i < nat (block_size s * 2) \<longrightarrow> output_accum s ! i = 0"
    using inv by (simp add: stft_inv_def)
  have pos: "0 < block_size s"
    using inv by (simp add: stft_inv_def stft_shape_def)
  have "array_get (output_accum s) i = Some 0" if "block_size s \<le> i" "i < 2 * block_size s" for i
  proof -
    have "nat (block_size s) \<le> nat i" "nat i < nat (block_size s * 2)"
      using that pos by linarith+
    then have "output_accum s ! nat i = 0" using z by blast
    then show ?thesis
      using that pos len by (simp add: array_get_def)
  qed
  then show ?thesis using len by (simp add: mult.commute)
qed

theorem output_accum_tail_zero_witness:
  "reachable wit_ext wit_cfg wit_run3 \<and> block_size wit_run3 \<le> 4 \<and> 7 < 2 * block_size wit_run3 \<and>
   array_get (output_accum wit_run3) 4 = Some 0 \<and> array_get (output_accum wit_run3) 7 = Some 0"
  using output_accum_tail_zero [OF reachable_wit_run3] reachable_wit_run3
  by (simp add: wit_run3_def)

end
